(* ===== verification/Prelude.thy ===== *)
theory Prelude
  imports Main
begin

text \<open>
  Shared vocabulary of the development. A promise of the host runtime is named by a
  \<open>pid\<close>, the index of the call to the fetch function that created it. The outcome of a
  suspending read (spec section 9: \<open>Read(key) -> Ready(value) | Pending(handle)\<close>) is a
  \<open>read_result\<close>: \<open>Ready v\<close> for a returned value, \<open>Suspend p\<close> for a thrown promise.
  The collection \<open>map_laws\<close> holds the generic facts on partial maps that the
  invariant proofs of the components share.
\<close>

type_synonym pid = nat

datatype ('v, 'p) read_result = Ready 'v | Suspend 'p

named_theorems map_laws "laws of map update and deletion shared by the component proofs"

lemma dom_disjoint_set_del [map_laws]:
  "dom a \<inter> dom b = {} \<Longrightarrow> dom (a(k \<mapsto> v)) \<inter> dom (b(k := None)) = {}"
  by auto

lemma dom_disjoint_del_left [map_laws]:
  "dom a \<inter> dom b = {} \<Longrightarrow> dom (a(k := None)) \<inter> dom b = {}"
  by auto

lemma dom_disjoint_new_right [map_laws]:
  "dom a \<inter> dom b = {} \<Longrightarrow> a k = None \<Longrightarrow> dom a \<inter> dom (b(k \<mapsto> v)) = {}"
  by auto

text \<open>
  Counting the elements that lack a property that only grows: the measure of the host's
  retry loops (each pass makes one more element have it).
\<close>

lemma length_filter_not_mono:
  "(\<And>x. P x \<Longrightarrow> Q x) \<Longrightarrow> length (filter (\<lambda>x. \<not> Q x) xs) \<le> length (filter (\<lambda>x. \<not> P x) xs)"
  by (induction xs) auto

lemma length_filter_not_strict:
  assumes "\<And>x. P x \<Longrightarrow> Q x" and "a \<in> set xs" "\<not> P a" "Q a"
  shows "length (filter (\<lambda>x. \<not> Q x) xs) < length (filter (\<lambda>x. \<not> P x) xs)"
  using assms(2)
proof (induction xs)
  case (Cons y ys)
  show ?case
  proof (cases "y = a")
    case True
    with assms(3,4) length_filter_not_mono [of P Q ys, OF assms(1)] show ?thesis by simp
  next
    case False
    with Cons assms(1) [of y] show ?thesis by auto
  qed
qed simp

end
