(* ===== verification/Resource.thy ===== *)
theory Resource
  imports Prelude
begin

text \<open>
  The process-wide resource cache of \<open>src/src/index.js\<close>: the module variables
  \<open>cache\<close> and \<open>pending\<close> (lines 10--11) and the object returned by
  \<open>createResource(promise, getKey)\<close> (lines 29--58) with its methods \<open>read\<close>,
  \<open>flush\<close> and \<open>refetch\<close>. The state \<open>res_state\<close> holds the two JS \<open>Map\<close>s as
  partial maps and, for the host runtime, the promises whose \<open>then\<close> callback has not run
  yet (\<open>inflight\<close>, each with the key its callback captured) and the log of calls of the
  fetch function \<open>promise(obj)\<close> (\<open>calls\<close>; the promise of the \<open>i\<close>-th call is \<open>i\<close>).
  A thrown promise is the result \<open>Suspend p\<close>.
\<close>

record ('o, 'k, 'v) res_state =
  cache :: "'k \<rightharpoonup> 'v"
  pending :: "'k \<rightharpoonup> pid"
  inflight :: "pid \<rightharpoonup> 'k"
  calls :: "'o list"

definition res_init :: "('o, 'k, 'v) res_state" where
  "res_init = \<lparr>cache = Map.empty, pending = Map.empty, inflight = Map.empty, calls = []\<rparr>"

text \<open>\<open>read(obj)\<close>: cache hit, then pending hit, then a new fetch registered as pending.\<close>

definition resource_read ::
  "('o \<Rightarrow> 'k) \<Rightarrow> 'o \<Rightarrow> ('o, 'k, 'v) res_state \<Rightarrow> ('v, pid) read_result \<times> ('o, 'k, 'v) res_state" where
  "resource_read getKey obj s =
     (let key = getKey obj in
      case cache s key of
        Some v \<Rightarrow> (Ready v, s)
      | None \<Rightarrow>
          (case pending s key of
             Some p \<Rightarrow> (Suspend p, s)
           | None \<Rightarrow>
               (let p = length (calls s) in
                (Suspend p, s\<lparr>calls := calls s @ [obj],
                              inflight := (inflight s)(p \<mapsto> key),
                              pending := (pending s)(key \<mapsto> p)\<rparr>))))"

text \<open>
  The \<open>then\<close> callback of a fetch (lines 42--45), run when promise \<open>p\<close> resolves to
  \<open>val\<close>: it deletes \<open>key\<close> from whatever map the module variable \<open>pending\<close> holds
  now and stores the value in the current \<open>cache\<close>. A promise that is not in flight has
  no callback left to run.
\<close>

definition resource_settle :: "pid \<Rightarrow> 'v \<Rightarrow> ('o, 'k, 'v) res_state \<Rightarrow> ('o, 'k, 'v) res_state" where
  "resource_settle p val s =
     (case inflight s p of
        None \<Rightarrow> s
      | Some key \<Rightarrow> s\<lparr>inflight := (inflight s)(p := None),
                      pending := (pending s)(key := None),
                      cache := (cache s)(key \<mapsto> val)\<rparr>)"

text \<open>
  A rejected fetch: \<open>then\<close> was given no rejection handler (line 42), so nothing of the
  cache changes; only the promise stops being in flight.
\<close>

definition resource_reject :: "pid \<Rightarrow> ('o, 'k, 'v) res_state \<Rightarrow> ('o, 'k, 'v) res_state" where
  "resource_reject p s = s\<lparr>inflight := (inflight s)(p := None)\<rparr>"

text \<open>\<open>flush()\<close> (lines 49--52) rebinds both module variables to fresh maps.\<close>

definition resource_flush :: "('o, 'k, 'v) res_state \<Rightarrow> ('o, 'k, 'v) res_state" where
  "resource_flush s = s\<lparr>cache := Map.empty, pending := Map.empty\<rparr>"

text \<open>
  \<open>refetch(key)\<close> (lines 53--56) deletes \<open>key\<close> and calls \<open>this.read(key)\<close>, passing
  the key where \<open>read\<close> expects a request object; the request type is therefore the
  key type here.
\<close>

definition resource_refetch ::
  "('k \<Rightarrow> 'k) \<Rightarrow> 'k \<Rightarrow> ('k, 'k, 'v) res_state \<Rightarrow> ('v, pid) read_result \<times> ('k, 'k, 'v) res_state" where
  "resource_refetch getKey key s = resource_read getKey key (s\<lparr>cache := (cache s)(key := None)\<rparr>)"

text \<open>
  The events the cache sees: a \<open>read\<close> during a render pass, the resolution or
  rejection of a fetch promise (host event queue), \<open>flush()\<close> and \<open>refetch(key)\<close>.
  The machine is stated for requests that are their own keys (\<open>ensureQuote\<close>, line 74,
  uses the default \<open>getKey = x => x\<close>), since \<open>refetch\<close> passes a key to \<open>read\<close>.
\<close>

datatype ('k, 'v) res_event = Read 'k | Settle pid 'v | Reject pid | Flush | Refetch 'k

fun res_step ::
  "('k \<Rightarrow> 'k) \<Rightarrow> ('k, 'k, 'v) res_state \<Rightarrow> ('k, 'v) res_event \<Rightarrow> ('k, 'k, 'v) res_state" where
  "res_step g s (Read obj) = snd (resource_read g obj s)"
| "res_step g s (Settle p v) = resource_settle p v s"
| "res_step g s (Reject p) = resource_reject p s"
| "res_step g s Flush = resource_flush s"
| "res_step g s (Refetch k) = snd (resource_refetch g k s)"

fun res_run ::
  "('k \<Rightarrow> 'k) \<Rightarrow> ('k, 'k, 'v) res_state \<Rightarrow> ('k, 'v) res_event list \<Rightarrow> ('k, 'k, 'v) res_state" where
  "res_run g s [] = s"
| "res_run g s (e # es) = res_run g (res_step g s e) es"

subsection \<open>Invariants\<close>

text \<open>
  No key is both resolved and pending; every in-flight promise is the pending entry of
  its key (so at most one fetch per key is outstanding); promise names are fresh.
\<close>

definition res_disjoint :: "('o, 'k, 'v) res_state \<Rightarrow> bool" where
  "res_disjoint s \<longleftrightarrow> dom (cache s) \<inter> dom (pending s) = {}"

definition res_coalesced :: "('o, 'k, 'v) res_state \<Rightarrow> bool" where
  "res_coalesced s \<longleftrightarrow> (\<forall>p k. inflight s p = Some k \<longrightarrow> pending s k = Some p)"

definition res_fresh :: "('o, 'k, 'v) res_state \<Rightarrow> bool" where
  "res_fresh s \<longleftrightarrow> (\<forall>p k. inflight s p = Some k \<longrightarrow> p < length (calls s))"

definition res_inv :: "('o, 'k, 'v) res_state \<Rightarrow> bool" where
  "res_inv s \<longleftrightarrow> res_disjoint s \<and> res_coalesced s \<and> res_fresh s"

text \<open>
  Promise names are well typed: every promise in flight or pending names a call of the
  fetch function, made for a request whose key is the key of that entry.
\<close>

definition res_typed :: "('o \<Rightarrow> 'k) \<Rightarrow> ('o, 'k, 'v) res_state \<Rightarrow> bool" where
  "res_typed g s \<longleftrightarrow>
     (\<forall>p k. inflight s p = Some k \<longrightarrow> p < length (calls s) \<and> g (calls s ! p) = k) \<and>
     (\<forall>k p. pending s k = Some p \<longrightarrow> p < length (calls s) \<and> g (calls s ! p) = k)"

lemmas resource_defs = resource_read_def resource_settle_def resource_reject_def
  resource_flush_def resource_refetch_def Let_def

subsection \<open>The three branches of read\<close>

lemma resource_read_hit:
  "cache s (getKey obj) = Some v \<Longrightarrow> resource_read getKey obj s = (Ready v, s)"
  by (simp add: resource_read_def)

lemma resource_read_pending:
  "cache s (getKey obj) = None \<Longrightarrow> pending s (getKey obj) = Some p \<Longrightarrow>
   resource_read getKey obj s = (Suspend p, s)"
  by (simp add: resource_read_def)

lemma resource_read_cache [simp]: "cache (snd (resource_read getKey obj s)) = cache s"
  by (simp add: resource_read_def Let_def split: option.split)

lemma resource_read_pending_mono:
  "pending s k = Some p \<Longrightarrow> pending (snd (resource_read getKey obj s)) k = Some p"
  by (auto simp add: resource_read_def Let_def split: option.split)

lemma resource_read_calls:
  "calls (snd (resource_read getKey obj s)) =
     calls s @ (if cache s (getKey obj) = None \<and> pending s (getKey obj) = None then [obj] else [])"
  by (simp add: resource_read_def Let_def split: option.split)

lemma resource_read_pending_other:
  "getKey obj \<noteq> k \<Longrightarrow> pending (snd (resource_read getKey obj s)) k = pending s k"
  by (simp add: resource_read_def Let_def split: option.split)

lemma resource_read_pending_self:
  "cache s (getKey obj) = None \<Longrightarrow> pending (snd (resource_read getKey obj s)) (getKey obj) \<noteq> None"
  by (simp add: resource_read_def Let_def split: option.split)

subsection \<open>Every step keeps the invariants\<close>

lemma res_step_disjoint: "res_disjoint s \<Longrightarrow> res_disjoint (res_step g s e)"
  by (cases e) (auto simp: res_disjoint_def resource_defs map_laws split: option.splits)

lemma res_coalesced_unique:
  "res_coalesced s \<Longrightarrow> inflight s p = Some k \<Longrightarrow> inflight s q = Some k \<Longrightarrow> p = q"
  by (metis res_coalesced_def option.inject)

lemma resource_settle_coalesced:
  assumes c: "res_coalesced s"
  shows "res_coalesced (resource_settle p v s)"
proof (cases "inflight s p")
  case None
  with c show ?thesis by (simp add: resource_settle_def)
next
  case (Some k)
  show ?thesis
    unfolding res_coalesced_def
  proof (intro allI impI)
    fix q k'
    assume "inflight (resource_settle p v s) q = Some k'"
    with Some have q: "q \<noteq> p" and i: "inflight s q = Some k'"
      by (auto simp: resource_settle_def split: if_splits)
    have "k' \<noteq> k"
      using res_coalesced_unique [OF c i] q Some by blast
    with c i Some show "pending (resource_settle p v s) k' = Some q"
      by (simp add: resource_settle_def res_coalesced_def)
  qed
qed

lemma res_step_coalesced:
  "e \<noteq> Flush \<Longrightarrow> res_coalesced s \<Longrightarrow> res_coalesced (res_step g s e)"
proof (cases e)
  case (Settle p v)
  then show "res_coalesced s \<Longrightarrow> ?thesis" by (simp add: resource_settle_coalesced)
qed (auto simp: res_coalesced_def resource_defs split: option.splits)

lemma res_step_fresh: "res_fresh s \<Longrightarrow> res_fresh (res_step g s e)"
  by (cases e) (fastforce simp: res_fresh_def resource_defs split: option.splits)+

lemma res_step_inv: "e \<noteq> Flush \<Longrightarrow> res_inv s \<Longrightarrow> res_inv (res_step g s e)"
  by (simp add: res_inv_def res_step_disjoint res_step_coalesced res_step_fresh)

lemma res_init_inv [simp]: "res_inv res_init"
  by (simp add: res_inv_def res_disjoint_def res_coalesced_def res_fresh_def res_init_def)

lemma res_run_inv: "Flush \<notin> set es \<Longrightarrow> res_inv s \<Longrightarrow> res_inv (res_run g s es)"
  by (induction es arbitrary: s) (auto simp: res_step_inv)

lemma res_run_disjoint_all: "res_disjoint s \<Longrightarrow> res_disjoint (res_run g s es)"
  by (induction es arbitrary: s) (auto simp: res_step_disjoint)

lemma res_run_reads_prefix: "\<exists>new. calls (res_run g s (map Read objs)) = calls s @ new"
proof (induction objs arbitrary: s)
  case Nil
  show ?case by simp
next
  case (Cons obj objs)
  obtain new where "calls (res_run g (snd (resource_read g obj s)) (map Read objs)) =
      calls (snd (resource_read g obj s)) @ new"
    using Cons.IH by blast
  then show ?case by (simp add: resource_read_calls)
qed

lemma res_inv_pending_free:
  "res_inv s \<Longrightarrow> cache s k = Some v \<Longrightarrow> pending s k = None"
  by (auto simp: res_inv_def res_disjoint_def)

lemma res_step_cache_keep:
  assumes "res_inv s" "cache s k = Some v" "e \<noteq> Flush" "e \<noteq> Refetch k"
  shows "cache (res_step g s e) k = Some v"
proof (cases e)
  case (Settle p v')
  have "inflight s p \<noteq> Some k"
    using assms(1,2) res_inv_pending_free [OF assms(1,2)]
    by (auto simp: res_inv_def res_coalesced_def)
  with assms Settle show ?thesis by (auto simp: resource_settle_def split: option.split)
qed (use assms in \<open>auto simp: resource_reject_def resource_refetch_def\<close>)

lemma res_run_cache_keep:
  "res_inv s \<Longrightarrow> cache s k = Some v \<Longrightarrow> \<forall>e \<in> set es. e \<noteq> Flush \<and> e \<noteq> Refetch k \<Longrightarrow>
   cache (res_run g s es) k = Some v"
  by (induction es arbitrary: s) (auto simp: res_step_cache_keep res_step_inv)

lemma resource_settle_caches:
  "inflight s p = Some k \<Longrightarrow> cache (resource_settle p v s) k = Some v"
  by (simp add: resource_settle_def)

text \<open>
  A key whose fetch was rejected: its pending entry names a promise that will never run
  its callback, in a consistent state.
\<close>

definition res_stuck :: "'k \<Rightarrow> pid \<Rightarrow> ('o, 'k, 'v) res_state \<Rightarrow> bool" where
  "res_stuck k p t \<longleftrightarrow>
     pending t k = Some p \<and> inflight t p = None \<and> p < length (calls t) \<and> res_inv t"

lemma res_stuck_no_inflight:
  "res_stuck k p t \<Longrightarrow> inflight t q \<noteq> Some k"
  by (auto simp: res_stuck_def res_inv_def res_coalesced_def)

lemma res_step_stuck:
  assumes "e \<noteq> Flush" and st: "res_stuck k p t"
  shows "res_stuck k p (res_step g t e)"
proof -
  have inv: "res_inv (res_step g t e)"
    using st assms(1) by (simp add: res_stuck_def res_step_inv)
  show ?thesis
  proof (cases e)
    case (Settle q v)
    then show ?thesis
      using st inv res_stuck_no_inflight [OF st, of q]
      by (auto simp: res_stuck_def resource_settle_def split: option.split)
  next
    case (Refetch k')
    then show ?thesis
      using st inv resource_read_pending_mono [of _ k p]
      by (auto simp: res_stuck_def resource_defs split: option.split)
  qed (use st inv resource_read_pending_mono [of _ k p] assms(1) in
        \<open>auto simp: res_stuck_def resource_defs split: option.split\<close>)
qed

lemma res_run_stuck:
  "Flush \<notin> set es \<Longrightarrow> res_stuck k p t \<Longrightarrow> res_stuck k p (res_run g t es)"
  by (induction es arbitrary: t) (auto simp: res_step_stuck)

lemma resource_read_typed:
  assumes t: "res_typed g s" shows "res_typed g (snd (resource_read g x s))"
proof (cases "cache s (g x) = None \<and> pending s (g x) = None")
  case True
  have i: "p < length (calls s) \<and> g (calls s ! p) = k" if "inflight s p = Some k" for p k
    using t that by (simp add: res_typed_def)
  have q: "p < length (calls s) \<and> g (calls s ! p) = k" if "pending s k = Some p" for k p
    using t that by (simp add: res_typed_def)
  show ?thesis
    using True by (auto simp: res_typed_def resource_read_def Let_def nth_append dest: i q)
      (metis i not_None_eq)
next
  case False
  then have "snd (resource_read g x s) = s" by (auto simp: resource_read_def Let_def split: option.split)
  with t show ?thesis by simp
qed

lemma res_step_typed: "res_typed g s \<Longrightarrow> res_typed g (res_step g s e)"
proof (cases e)
  case (Read x)
  then show "res_typed g s \<Longrightarrow> ?thesis" by (simp add: resource_read_typed)
next
  case (Refetch k)
  assume t: "res_typed g s"
  then have "res_typed g (s\<lparr>cache := (cache s)(k := None)\<rparr>)" by (simp add: res_typed_def)
  with Refetch show ?thesis by (simp add: resource_refetch_def resource_read_typed)
qed (auto simp: res_typed_def resource_defs split: option.splits)

lemma res_run_typed: "res_typed g s \<Longrightarrow> res_typed g (res_run g s es)"
  by (induction es arbitrary: s) (simp_all add: res_step_typed)

lemma res_init_typed [simp]: "res_typed g res_init"
  by (simp add: res_typed_def res_init_def)

text \<open>Rejecting the fetch in flight for \<open>k\<close> in a reachable state leaves \<open>k\<close> stuck.\<close>

lemma res_reject_stuck:
  assumes "Flush \<notin> set es0" and "inflight (res_run g res_init es0) p = Some k"
  shows "res_stuck k p (resource_reject p (res_run g res_init es0))"
proof -
  let ?s0 = "res_run g res_init es0"
  have i0: "res_inv ?s0" using assms(1) by (simp add: res_run_inv)
  then have "pending ?s0 k = Some p" and "p < length (calls ?s0)"
    using assms(2) by (auto simp: res_inv_def res_coalesced_def res_fresh_def)
  moreover have "res_inv (resource_reject p ?s0)"
    using res_step_inv [OF _ i0, of "Reject p" g] by simp
  ultimately show ?thesis by (simp add: res_stuck_def resource_reject_def)
qed

section \<open>Properties of the resource cache\<close>

text \<open>
  C1 (coalescing, spec P1). A batch of reads, issued before any fetch settles, calls the
  fetch function for a key \<open>k\<close> exactly once if \<open>k\<close> was neither resolved nor pending and
  some read asks for it, and never otherwise.
\<close>

theorem resource_reads_fetch_once:
  "length (filter (\<lambda>x. g x = k) (drop (length (calls s)) (calls (res_run g s (map Read objs))))) =
   (if cache s k = None \<and> pending s k = None \<and> k \<in> g ` set objs then 1 else 0)"
proof (induction objs arbitrary: s)
  case Nil
  show ?case by simp
next
  case (Cons obj objs)
  let ?s' = "snd (resource_read g obj s)"
  obtain new where new: "calls (res_run g ?s' (map Read objs)) = calls ?s' @ new"
    using res_run_reads_prefix by blast
  have IH: "length (filter (\<lambda>x. g x = k) new) =
      (if cache s k = None \<and> pending ?s' k = None \<and> k \<in> g ` set objs then 1 else 0)"
    using Cons.IH [of ?s'] new by simp
  show ?case
  proof (cases "g obj = k")
    case True
    then show ?thesis
      using IH new resource_read_pending_self [of s g obj]
      by (auto simp: resource_read_calls resource_read_pending_other)
  next
    case False
    then show ?thesis
      using IH new by (simp add: resource_read_calls resource_read_pending_other)
  qed
qed

text \<open>
  C2 (cache hit, spec P2). Once the fetch for key \<open>k\<close> settles with \<open>v\<close>, every later
  read for \<open>k\<close> returns \<open>v\<close> without suspending and without changing the state (so
  without a new fetch), whatever reads, settlements and rejections happen in between,
  as long as nobody flushes the cache or refetches \<open>k\<close>.
\<close>

theorem resource_settled_read_hits:
  assumes "Flush \<notin> set es0"
    and "inflight (res_run g res_init es0) p = Some k"
    and "\<forall>e \<in> set es. e \<noteq> Flush \<and> e \<noteq> Refetch k"
    and "g obj = k"
  shows "resource_read g obj (res_run g (resource_settle p v (res_run g res_init es0)) es) =
         (Ready v, res_run g (resource_settle p v (res_run g res_init es0)) es)"
proof -
  let ?s0 = "res_run g res_init es0"
  have i0: "res_inv ?s0" using assms(1) by (simp add: res_run_inv)
  have i1: "res_inv (resource_settle p v ?s0)"
    using res_step_inv [OF _ i0, of "Settle p v" g] by simp
  have c1: "cache (resource_settle p v ?s0) k = Some v"
    using assms(2) by (rule resource_settle_caches)
  have "cache (res_run g (resource_settle p v ?s0) es) k = Some v"
    using res_run_cache_keep [OF i1 c1 assms(3)] .
  with assms(4) show ?thesis by (simp add: resource_read_hit)
qed

theorem resource_settled_read_hits_witness:
  "Flush \<notin> set [Read (1::nat)] \<and>
   inflight (res_run id res_init [Read (1::nat)]) 0 = Some (1::nat) \<and>
   id (1::nat) = 1 \<and>
   resource_read id (1::nat)
     (res_run id (resource_settle 0 (7::int) (res_run id res_init [Read (1::nat)])) [Read 2]) =
   (Ready 7, res_run id (resource_settle 0 (7::int) (res_run id res_init [Read (1::nat)])) [Read 2])"
proof -
  have h: "inflight (res_run id res_init [Read (1::nat)]) 0 = Some (1::nat)"
    by (simp add: res_init_def resource_read_def)
  show ?thesis
    using resource_settled_read_hits [OF _ h, of "[Read 2]" 1 "7::int"] h by simp
qed

text \<open>
  C3 (flush, spec P3). After \<open>flush()\<close> a read of any request suspends and calls the
  fetch function anew, even for a key whose value was cached or whose fetch is still in
  flight: the new pending map holds only the new promise.
\<close>

theorem resource_flush_read_refetches:
  "resource_read g obj (resource_flush s) =
     (Suspend (length (calls s)),
      s\<lparr>cache := Map.empty, pending := [g obj \<mapsto> length (calls s)],
        inflight := (inflight s)(length (calls s) \<mapsto> g obj), calls := calls s @ [obj]\<rparr>)"
  by (simp add: resource_flush_def resource_read_def Let_def)

text \<open>
  C4 (a fetch started before \<open>flush()\<close> writes into the flushed cache). The callback of
  a fetch refers to the module variables \<open>cache\<close> and \<open>pending\<close>, not to the maps that
  existed when it was created; \<open>flush\<close> rebinds the variables. So in any reachable
  state where the fetch \<open>p\<close> for key \<open>k\<close> is in flight, after \<open>flush()\<close> a read of
  \<open>k\<close> starts a second fetch \<open>q\<close>; when \<open>p\<close> then settles with \<open>v\<close>, it deletes the
  pending entry of \<open>q\<close>, which is still in flight, and stores \<open>v\<close> in the new cache,
  and the next read returns the pre-flush value \<open>v\<close>.
\<close>

theorem resource_flush_stale_value:
  assumes "inflight (res_run g res_init es) p = Some k" and "g obj = k"
  shows "\<exists>q s1. resource_read g obj (resource_flush (res_run g res_init es)) = (Suspend q, s1) \<and> q \<noteq> p \<and>
           inflight (resource_settle p v s1) q = Some k \<and> pending (resource_settle p v s1) k = None \<and>
           resource_read g obj (resource_settle p v s1) = (Ready v, resource_settle p v s1)"
proof -
  let ?s = "res_run g res_init es"
  have "res_typed g ?s" by (simp add: res_run_typed)
  with assms(1) have "p < length (calls ?s)" by (simp add: res_typed_def)
  with assms show ?thesis by (simp add: resource_defs)
qed

theorem resource_flush_stale_value_witness:
  "inflight (res_run id res_init [Read ''aapl'', Read ''msft'']) 0 = Some ''aapl'' \<and> id ''aapl'' = ''aapl'' \<and>
   (\<exists>q s1. resource_read id ''aapl'' (resource_flush (res_run id res_init [Read ''aapl'', Read ''msft''])) =
             (Suspend q, s1) \<and> q \<noteq> 0 \<and>
           inflight (resource_settle 0 (1::int) s1) q = Some ''aapl'' \<and> pending (resource_settle 0 (1::int) s1) ''aapl'' = None \<and>
           resource_read id ''aapl'' (resource_settle 0 (1::int) s1) = (Ready 1, resource_settle 0 (1::int) s1))"
proof -
  have h: "inflight (res_run id res_init [Read ''aapl'', Read ''msft'']) 0 = Some ''aapl''"
    by (simp add: res_init_def resource_defs)
  show ?thesis using resource_flush_stale_value [OF h, of "''aapl''" "1::int"] h by simp
qed

text \<open>
  C5 (refetch, spec P4). With the identity key function used by the program, when \<open>k\<close>
  is cached (and so, in a consistent state, not pending), \<open>refetch(k)\<close> calls the fetch
  function for \<open>k\<close>, throws the new promise, and once that promise settles with \<open>v'\<close>
  a read of \<open>k\<close> returns \<open>v'\<close>, replacing the old value.
\<close>

theorem resource_refetch_replaces:
  assumes "res_disjoint s" and "cache s k = Some v"
  shows "fst (resource_refetch id k s) = Suspend (length (calls s)) \<and>
         calls (snd (resource_refetch id k s)) = calls s @ [k] \<and>
         fst (resource_read id k (resource_settle (length (calls s)) v' (snd (resource_refetch id k s))))
           = Ready v'"
proof -
  have "pending s k = None" using assms by (auto simp: res_disjoint_def)
  then show ?thesis by (simp add: resource_defs)
qed

theorem resource_refetch_replaces_witness:
  "res_disjoint (res_init\<lparr>cache := [(1::nat) \<mapsto> (5::int)]\<rparr> :: (nat, nat, int) res_state) \<and>
   cache (res_init\<lparr>cache := [(1::nat) \<mapsto> (5::int)]\<rparr> :: (nat, nat, int) res_state) 1 = Some 5 \<and>
   fst (resource_refetch id 1 (res_init\<lparr>cache := [(1::nat) \<mapsto> (5::int)]\<rparr>)) = Suspend 0"
proof -
  have d: "res_disjoint (res_init\<lparr>cache := [(1::nat) \<mapsto> (5::int)]\<rparr> :: (nat, nat, int) res_state)"
    by (simp add: res_disjoint_def res_init_def)
  have c: "cache (res_init\<lparr>cache := [(1::nat) \<mapsto> (5::int)]\<rparr> :: (nat, nat, int) res_state) 1 = Some 5"
    by simp
  show ?thesis
    using resource_refetch_replaces [OF d c, of "6::int"] d c by (simp add: res_init_def)
qed

text \<open>
  C6 (a rejected fetch suspends its key forever, spec section 7). If the fetch for
  \<open>k\<close> is rejected, every later read of \<open>k\<close> throws the dead promise again and
  starts no fetch, whatever happens afterwards short of a \<open>flush()\<close>: reads,
  settlements, rejections, even \<open>refetch(k)\<close>, which only deletes the cached value.
\<close>

theorem resource_rejected_key_stuck:
  assumes "Flush \<notin> set es0"
    and "inflight (res_run g res_init es0) p = Some k"
    and "Flush \<notin> set es"
    and "g obj = k"
  shows "resource_read g obj (res_run g (resource_reject p (res_run g res_init es0)) es) =
         (Suspend p, res_run g (resource_reject p (res_run g res_init es0)) es)"
proof -
  let ?s0 = "res_run g res_init es0"
  have "res_stuck k p (resource_reject p ?s0)" using assms(1,2) by (rule res_reject_stuck)
  then have st: "res_stuck k p (res_run g (resource_reject p ?s0) es)"
    using assms(3) by (simp add: res_run_stuck)
  then have "cache (res_run g (resource_reject p ?s0) es) k = None"
    by (auto simp: res_stuck_def res_inv_def res_disjoint_def)
  with st assms(4) show ?thesis by (simp add: res_stuck_def resource_read_pending)
qed

theorem resource_rejected_key_stuck_witness:
  "Flush \<notin> set [Read (1::nat)] \<and>
   inflight (res_run id res_init [Read (1::nat)]) 0 = Some (1::nat) \<and>
   Flush \<notin> set [Read (1::nat), Refetch 1, Settle 0 (5::int)] \<and> id (1::nat) = 1 \<and>
   resource_read id (1::nat)
     (res_run id (resource_reject 0 (res_run id res_init [Read (1::nat)])) [Read 1, Refetch 1, Settle 0 (5::int)]) =
   (Suspend 0,
    res_run id (resource_reject 0 (res_run id res_init [Read (1::nat)])) [Read 1, Refetch 1, Settle 0 (5::int)])"
proof -
  have h: "inflight (res_run id res_init [Read (1::nat)]) 0 = Some (1::nat)"
    by (simp add: res_init_def resource_read_def)
  show ?thesis
    using resource_rejected_key_stuck [OF _ h, of "[Read 1, Refetch 1, Settle 0 (5::int)]" 1] h
    by simp
qed

text \<open>
  C7 (consistency). In every state the program can reach, whatever the sequence of
  reads, settlements, rejections, flushes and refetches, no key is both resolved and
  pending.
\<close>

theorem resource_reachable_disjoint: "res_disjoint (res_run g res_init es)"
  by (rule res_run_disjoint_all) (simp add: res_disjoint_def res_init_def)

text \<open>
  C8 (one outstanding fetch per key). In every state reachable without \<open>flush()\<close>, two
  in-flight fetch promises for the same key are the same promise.
\<close>

theorem resource_one_fetch_in_flight:
  assumes "Flush \<notin> set es"
    and "inflight (res_run g res_init es) p = Some k"
    and "inflight (res_run g res_init es) q = Some k"
  shows "p = q"
proof -
  have "res_inv (res_run g res_init es)" using assms(1) by (simp add: res_run_inv)
  then show ?thesis using assms(2,3) by (auto simp: res_inv_def intro: res_coalesced_unique)
qed

theorem resource_one_fetch_in_flight_witness:
  "Flush \<notin> set [Read (1::nat), Read 2, Read 1] \<and>
   inflight (res_run id res_init [Read (1::nat), Read 2, Read 1]) 0 = Some (1::nat) \<and> (0::nat) = 0"
proof -
  have h: "inflight (res_run id res_init [Read (1::nat), Read 2, Read 1]) 0 = Some (1::nat)"
    by (simp add: res_init_def resource_read_def)
  show ?thesis using resource_one_fetch_in_flight [OF _ h h] h by simp
qed

text \<open>
  C28 (promise names are well typed). In every reachable state, whatever the events, a
  promise in flight for key \<open>k\<close> or pending under \<open>k\<close> is the result of a call of
  the fetch function that was made for a request whose key is \<open>k\<close>.
\<close>

theorem resource_promises_typed:
  assumes "inflight (res_run g res_init es) p = Some k \<or> pending (res_run g res_init es) k = Some p"
  shows "p < length (calls (res_run g res_init es)) \<and> g (calls (res_run g res_init es) ! p) = k"
proof -
  have "res_typed g (res_run g res_init es)" by (simp add: res_run_typed)
  with assms show ?thesis by (auto simp: res_typed_def)
qed

theorem resource_promises_typed_witness:
  "(inflight (res_run id (res_init :: (nat, nat, int) res_state) [Read 1, Flush, Read 2]) 1 = Some 2 \<or>
    pending (res_run id (res_init :: (nat, nat, int) res_state) [Read 1, Flush, Read 2]) 2 = Some 1) \<and>
   1 < length (calls (res_run id (res_init :: (nat, nat, int) res_state) [Read 1, Flush, Read 2])) \<and>
   id (calls (res_run id (res_init :: (nat, nat, int) res_state) [Read 1, Flush, Read 2]) ! 1) = 2"
proof -
  have h: "inflight (res_run id (res_init :: (nat, nat, int) res_state) [Read 1, Flush, Read 2]) 1 = Some 2 \<or>
    pending (res_run id (res_init :: (nat, nat, int) res_state) [Read 1, Flush, Read 2]) 2 = Some 1"
    by (simp add: res_init_def resource_defs)
  show ?thesis using resource_promises_typed [OF h] h by simp
qed

end
