(* ===== verification/CacheContext.thy ===== *)
theory CacheContext
  imports Resource
begin

text \<open>
  The module variables \<open>cache\<close> and \<open>pending\<close> of \<open>src/src/index.js\<close> (lines 10--11)
  hold references to JS \<open>Map\<close> objects, and \<open>CacheProvider\<close> (lines 85--93) passes the
  object \<open>cache\<close> refers to at render time down the tree, where \<open>withCache\<close> (lines
  95--99) hands it to the wrapped component. To state what such a consumer sees, this
  theory models the objects explicitly: a store of cache maps and a store of pending maps
  indexed by address, with an allocation limit as in Imperative HOL's heap, and the two
  variables as addresses. \<open>new Map()\<close> allocates at the limit; \<open>cache.set\<close> and the other
  \<open>Map\<close> methods update the object the variable refers to when they run. The operations of
  \<open>createResource\<close> (lines 29--58) are written again over this store; the abstraction
  \<open>heap_abs\<close> reads the objects the variables refer to, and the store model is proved
  equivalent to the variable model of theory \<open>Resource\<close>.
\<close>

record ('o, 'k, 'v) js_heap =
  cmaps :: "nat \<Rightarrow> ('k \<rightharpoonup> 'v)"
  pmaps :: "nat \<Rightarrow> ('k \<rightharpoonup> pid)"
  cache_var :: nat
  pending_var :: nat
  heap_lim :: nat
  h_inflight :: "pid \<rightharpoonup> 'k"
  h_calls :: "'o list"

text \<open>\<open>new Map()\<close> for each of the two stores: the fresh address and the extended heap.\<close>

definition new_cache_map :: "('o, 'k, 'v) js_heap \<Rightarrow> nat \<times> ('o, 'k, 'v) js_heap" where
  "new_cache_map h =
     (heap_lim h, h\<lparr>cmaps := (cmaps h)(heap_lim h := Map.empty), heap_lim := Suc (heap_lim h)\<rparr>)"

definition new_pending_map :: "('o, 'k, 'v) js_heap \<Rightarrow> nat \<times> ('o, 'k, 'v) js_heap" where
  "new_pending_map h =
     (heap_lim h, h\<lparr>pmaps := (pmaps h)(heap_lim h := Map.empty), heap_lim := Suc (heap_lim h)\<rparr>)"

text \<open>Module initialisation: \<open>let cache = new Map(); let pending = new Map();\<close>.\<close>

definition heap_init :: "('o, 'k, 'v) js_heap" where
  "heap_init =
     (let h0 = \<lparr>cmaps = (\<lambda>_. Map.empty), pmaps = (\<lambda>_. Map.empty), cache_var = 0, pending_var = 0,
                heap_lim = 0, h_inflight = Map.empty, h_calls = []\<rparr>;
          (c, h1) = new_cache_map h0;
          (p, h2) = new_pending_map (h1\<lparr>cache_var := c\<rparr>)
      in h2\<lparr>pending_var := p\<rparr>)"

text \<open>\<open>read(obj)\<close> (lines 31--48) on the objects the variables refer to.\<close>

definition heap_read ::
  "('o \<Rightarrow> 'k) \<Rightarrow> 'o \<Rightarrow> ('o, 'k, 'v) js_heap \<Rightarrow> ('v, pid) read_result \<times> ('o, 'k, 'v) js_heap" where
  "heap_read getKey obj h =
     (let key = getKey obj in
      case cmaps h (cache_var h) key of
        Some v \<Rightarrow> (Ready v, h)
      | None \<Rightarrow>
          (case pmaps h (pending_var h) key of
             Some p \<Rightarrow> (Suspend p, h)
           | None \<Rightarrow>
               (let p = length (h_calls h) in
                (Suspend p, h\<lparr>h_calls := h_calls h @ [obj],
                              h_inflight := (h_inflight h)(p \<mapsto> key),
                              pmaps := (pmaps h)(pending_var h := (pmaps h (pending_var h))(key \<mapsto> p))\<rparr>))))"

text \<open>
  The \<open>then\<close> callback (lines 42--45): \<open>pending.delete(key)\<close> and \<open>cache.set(key, val)\<close>
  act on the objects the variables refer to when the callback runs.
\<close>

definition heap_settle :: "pid \<Rightarrow> 'v \<Rightarrow> ('o, 'k, 'v) js_heap \<Rightarrow> ('o, 'k, 'v) js_heap" where
  "heap_settle p val h =
     (case h_inflight h p of
        None \<Rightarrow> h
      | Some key \<Rightarrow>
          h\<lparr>h_inflight := (h_inflight h)(p := None),
            pmaps := (pmaps h)(pending_var h := (pmaps h (pending_var h))(key := None)),
            cmaps := (cmaps h)(cache_var h := (cmaps h (cache_var h))(key \<mapsto> val))\<rparr>)"

definition heap_reject :: "pid \<Rightarrow> ('o, 'k, 'v) js_heap \<Rightarrow> ('o, 'k, 'v) js_heap" where
  "heap_reject p h = h\<lparr>h_inflight := (h_inflight h)(p := None)\<rparr>"

text \<open>\<open>flush()\<close> (lines 49--52): \<open>cache = new Map(); pending = new Map();\<close>.\<close>

definition heap_flush :: "('o, 'k, 'v) js_heap \<Rightarrow> ('o, 'k, 'v) js_heap" where
  "heap_flush h =
     (let (c, h1) = new_cache_map h;
          (p, h2) = new_pending_map (h1\<lparr>cache_var := c\<rparr>)
      in h2\<lparr>pending_var := p\<rparr>)"

text \<open>\<open>refetch(key)\<close> (lines 53--56): \<open>cache.delete(key); this.read(key);\<close>.\<close>

definition heap_refetch ::
  "('k \<Rightarrow> 'k) \<Rightarrow> 'k \<Rightarrow> ('k, 'k, 'v) js_heap \<Rightarrow> ('v, pid) read_result \<times> ('k, 'k, 'v) js_heap" where
  "heap_refetch getKey key h =
     heap_read getKey key (h\<lparr>cmaps := (cmaps h)(cache_var h := (cmaps h (cache_var h))(key := None))\<rparr>)"

fun heap_step ::
  "('k \<Rightarrow> 'k) \<Rightarrow> ('k, 'k, 'v) js_heap \<Rightarrow> ('k, 'v) res_event \<Rightarrow> ('k, 'k, 'v) js_heap" where
  "heap_step g h (Read obj) = snd (heap_read g obj h)"
| "heap_step g h (Settle p v) = heap_settle p v h"
| "heap_step g h (Reject p) = heap_reject p h"
| "heap_step g h Flush = heap_flush h"
| "heap_step g h (Refetch k) = snd (heap_refetch g k h)"

fun heap_run ::
  "('k \<Rightarrow> 'k) \<Rightarrow> ('k, 'k, 'v) js_heap \<Rightarrow> ('k, 'v) res_event list \<Rightarrow> ('k, 'k, 'v) js_heap" where
  "heap_run g h [] = h"
| "heap_run g h (e # es) = heap_run g (heap_step g h e) es"

text \<open>The state of theory \<open>Resource\<close>: the objects the two variables refer to.\<close>

definition heap_abs :: "('o, 'k, 'v) js_heap \<Rightarrow> ('o, 'k, 'v) res_state" where
  "heap_abs h = \<lparr>cache = cmaps h (cache_var h), pending = pmaps h (pending_var h),
                 inflight = h_inflight h, calls = h_calls h\<rparr>"

text \<open>
  \<open>CacheProvider.render\<close> (lines 88--92) provides the value of \<open>cache\<close> at render time,
  a reference; the consumer of \<open>withCache(Comp)\<close> (lines 95--99) renders \<open>Comp\<close> with its
  props and the object that reference denotes.
\<close>

definition cache_provider_value :: "('o, 'k, 'v) js_heap \<Rightarrow> nat" where
  "cache_provider_value h = cache_var h"

definition with_cache ::
  "('p \<Rightarrow> ('k \<rightharpoonup> 'v) \<Rightarrow> 'r) \<Rightarrow> 'p \<Rightarrow> nat \<Rightarrow> ('o, 'k, 'v) js_heap \<Rightarrow> 'r" where
  "with_cache Comp props ctx h = Comp props (cmaps h ctx)"

text \<open>Both variables refer to allocated objects.\<close>

definition heap_wf :: "('o, 'k, 'v) js_heap \<Rightarrow> bool" where
  "heap_wf h \<longleftrightarrow> cache_var h < heap_lim h \<and> pending_var h < heap_lim h"

lemmas heap_defs = heap_read_def heap_settle_def heap_reject_def heap_flush_def
  heap_refetch_def new_cache_map_def new_pending_map_def Let_def

subsection \<open>The store model implements the variable model\<close>

lemma heap_abs_init [simp]: "heap_abs heap_init = res_init"
  by (simp add: heap_abs_def heap_init_def res_init_def new_cache_map_def new_pending_map_def)

lemma heap_abs_cache [simp]: "cache (heap_abs h) = cmaps h (cache_var h)"
  by (simp add: heap_abs_def)

lemma heap_read_abs:
  "resource_read g x (heap_abs h) = map_prod id heap_abs (heap_read g x h)"
  by (simp add: heap_read_def resource_read_def heap_abs_def Let_def split: option.split)

lemma heap_step_abs: "heap_abs (heap_step g h e) = res_step g (heap_abs h) e"
proof (cases e)
  case (Read x)
  then show ?thesis using heap_read_abs [of g x h] by simp
next
  case (Refetch k)
  have "resource_read g k ((heap_abs h)\<lparr>cache := (cache (heap_abs h))(k := None)\<rparr>) =
        map_prod id heap_abs (heap_refetch g k h)"
    using heap_read_abs [of g k "h\<lparr>cmaps := (cmaps h)(cache_var h := (cmaps h (cache_var h))(k := None))\<rparr>"]
    by (simp add: heap_refetch_def heap_abs_def)
  with Refetch show ?thesis by (simp add: resource_refetch_def)
qed (simp_all add: heap_abs_def heap_defs resource_defs split: option.split)

lemma heap_run_abs: "heap_abs (heap_run g h es) = res_run g (heap_abs h) es"
  by (induction es arbitrary: h) (simp_all add: heap_step_abs)

lemma heap_init_wf [simp]: "heap_wf heap_init"
  by (simp add: heap_wf_def heap_init_def new_cache_map_def new_pending_map_def)

lemma heap_step_wf: "heap_wf h \<Longrightarrow> heap_wf (heap_step g h e)"
  by (cases e) (auto simp: heap_wf_def heap_defs split: option.split)

lemma heap_run_wf: "heap_wf h \<Longrightarrow> heap_wf (heap_run g h es)"
  by (induction es arbitrary: h) (simp_all add: heap_step_wf)

subsection \<open>What the variables refer to\<close>

lemma heap_step_var_keep: "e \<noteq> Flush \<Longrightarrow> cache_var (heap_step g h e) = cache_var h"
  by (cases e) (simp_all add: heap_defs split: option.split)

lemma heap_run_var_keep: "Flush \<notin> set es \<Longrightarrow> cache_var (heap_run g h es) = cache_var h"
  by (induction es arbitrary: h) (simp, metis heap_run.simps(2) heap_step_var_keep list.set_intros(1,2))

text \<open>
  An allocated object the variable \<open>cache\<close> no longer refers to is never written
  again: every write goes through the variable, and \<open>new Map()\<close> allocates above it.
\<close>

lemma heap_step_frozen:
  "ctx < heap_lim h \<Longrightarrow> ctx \<noteq> cache_var h \<Longrightarrow>
   cmaps (heap_step g h e) ctx = cmaps h ctx \<and> ctx < heap_lim (heap_step g h e) \<and>
   ctx \<noteq> cache_var (heap_step g h e)"
  by (cases e) (simp_all add: heap_defs split: option.split)

lemma heap_run_frozen:
  "ctx < heap_lim h \<Longrightarrow> ctx \<noteq> cache_var h \<Longrightarrow> cmaps (heap_run g h es) ctx = cmaps h ctx"
proof (induction es arbitrary: h)
  case (Cons e es)
  with heap_step_frozen [OF Cons.prems, of g e] show ?case by simp
qed simp

lemma heap_flush_frozen:
  "heap_wf h \<Longrightarrow> cache_var h < heap_lim (heap_flush h) \<and> cache_var h \<noteq> cache_var (heap_flush h) \<and>
   cmaps (heap_flush h) (cache_var h) = cmaps h (cache_var h)"
  by (simp add: heap_wf_def heap_defs)

section \<open>Properties of the cache context\<close>

text \<open>
  C24 (the context is live until a flush). As long as nobody calls \<open>flush()\<close>, a
  component wrapped by \<open>withCache\<close> under a \<open>CacheProvider\<close> sees, after any further
  reads, settlements, rejections and refetches, exactly the resource cache.
\<close>

theorem with_cache_live:
  assumes "Flush \<notin> set es"
  shows "with_cache Comp props (cache_provider_value h) (heap_run g h es) =
         Comp props (cache (res_run g (heap_abs h) es))"
proof -
  have "cache (res_run g (heap_abs h) es) = cmaps (heap_run g h es) (cache_var h)"
    using heap_run_abs [of g h es, symmetric] heap_run_var_keep [OF assms, of g h] by simp
  then show ?thesis by (simp add: with_cache_def cache_provider_value_def)
qed

theorem with_cache_live_witness:
  "Flush \<notin> set [Read ''aapl'', Settle 0 (1::int)] \<and>
   with_cache (\<lambda>u c. c ''aapl'') () (cache_provider_value (heap_init :: (string, string, int) js_heap))
     (heap_run id heap_init [Read ''aapl'', Settle 0 (1::int)]) =
   cache (res_run id res_init [Read ''aapl'', Settle 0 (1::int)]) ''aapl''"
proof -
  have f: "Flush \<notin> set [Read ''aapl'', Settle 0 (1::int)]" by simp
  show ?thesis
    using with_cache_live [OF f, where Comp = "\<lambda>u c. c ''aapl''" and props = "()" and h = heap_init and g = id]
    by simp
qed

text \<open>
  C25 (a flush leaves the context stale). \<open>CacheProvider\<close> provides the object
  \<open>cache\<close> refers to when it renders, and \<open>flush()\<close> rebinds the variable without
  re-rendering the provider. So once a flush follows the provider's render, a consumer of
  \<open>withCache\<close> sees forever the cache as it was at that render, whatever reads,
  settlements, flushes and refetches come after.
\<close>

theorem with_cache_stale_after_flush:
  "with_cache Comp props (cache_provider_value (heap_run g heap_init es0))
     (heap_run g (heap_flush (heap_run g heap_init es0)) es) =
   Comp props (cache (res_run g res_init es0))"
proof -
  let ?h = "heap_run g heap_init es0"
  have wf: "heap_wf ?h" by (simp add: heap_run_wf)
  then have "cmaps (heap_run g (heap_flush ?h) es) (cache_var ?h) = cmaps ?h (cache_var ?h)"
    using heap_flush_frozen [OF wf] heap_run_frozen [of "cache_var ?h" "heap_flush ?h" g es] by simp
  moreover have "cmaps ?h (cache_var ?h) = cache (res_run g res_init es0)"
    using heap_run_abs [of g heap_init es0, symmetric] by simp
  ultimately show ?thesis by (simp add: with_cache_def cache_provider_value_def)
qed

text \<open>
  An instance of the stale context: the provider renders after
  \<open>'aapl'\<close> resolved to 1; after a flush, a new fetch and its resolution to 2, the
  resource reads 2 while the consumer of \<open>withCache\<close> still finds 1.
\<close>

theorem with_cache_stale_scenario:
  "with_cache (\<lambda>u c. c ''aapl'') () (cache_provider_value (heap_run id heap_init [Read ''aapl'', Settle 0 (1::int)]))
     (heap_run id (heap_flush (heap_run id heap_init [Read ''aapl'', Settle 0 (1::int)])) [Read ''aapl'', Settle 1 2]) =
   Some 1 \<and>
   fst (heap_read id ''aapl''
     (heap_run id (heap_flush (heap_run id heap_init [Read ''aapl'', Settle 0 (1::int)])) [Read ''aapl'', Settle 1 2])) =
   Ready 2"
  by (simp add: heap_init_def heap_defs with_cache_def cache_provider_value_def)

end
