(* ===== verification/Fetcher.thy ===== *)
theory Fetcher
  imports Prelude
begin

text \<open>
  The simple fetcher \<open>createFetcher(method, hash)\<close> of \<open>src/src/index.js\<close>
  (lines 14--26): a \<open>resolved\<close> map per instance, no pending map. Every read of an
  unresolved key calls \<open>method(obj)\<close> again and throws the new promise, whose callback
  stores the value. The program instantiates it once, as \<open>ensureDelay\<close> (lines
  81--84), keyed by the request's \<open>id\<close>, with a method that resolves to that \<open>id\<close>
  after \<open>ms\<close> milliseconds.
\<close>

record ('o, 'k, 'v) fetcher_state =
  resolved :: "'k \<rightharpoonup> 'v"
  method_calls :: "'o list"
  fetcher_inflight :: "pid \<rightharpoonup> 'k"

definition fetcher_init :: "('o, 'k, 'v) fetcher_state" where
  "fetcher_init = \<lparr>resolved = Map.empty, method_calls = [], fetcher_inflight = Map.empty\<rparr>"

definition fetcher_read ::
  "('o \<Rightarrow> 'k) \<Rightarrow> 'o \<Rightarrow> ('o, 'k, 'v) fetcher_state \<Rightarrow> ('v, pid) read_result \<times> ('o, 'k, 'v) fetcher_state" where
  "fetcher_read hash obj s =
     (let key = hash obj in
      case resolved s key of
        None \<Rightarrow>
          (let p = length (method_calls s) in
           (Suspend p, s\<lparr>method_calls := method_calls s @ [obj],
                         fetcher_inflight := (fetcher_inflight s)(p \<mapsto> key)\<rparr>))
      | Some v \<Rightarrow> (Ready v, s))"

text \<open>The callback \<open>v => resolved.set(key, v)\<close> of line 20.\<close>

definition fetcher_settle :: "pid \<Rightarrow> 'v \<Rightarrow> ('o, 'k, 'v) fetcher_state \<Rightarrow> ('o, 'k, 'v) fetcher_state" where
  "fetcher_settle p v s =
     (case fetcher_inflight s p of
        None \<Rightarrow> s
      | Some key \<Rightarrow> s\<lparr>resolved := (resolved s)(key \<mapsto> v),
                      fetcher_inflight := (fetcher_inflight s)(p := None)\<rparr>)"

datatype ('o, 'v) fetcher_event = FRead 'o | FSettle pid 'v

fun fetcher_step ::
  "('o \<Rightarrow> 'k) \<Rightarrow> ('o, 'k, 'v) fetcher_state \<Rightarrow> ('o, 'v) fetcher_event \<Rightarrow> ('o, 'k, 'v) fetcher_state" where
  "fetcher_step hash s (FRead obj) = snd (fetcher_read hash obj s)"
| "fetcher_step hash s (FSettle p v) = fetcher_settle p v s"

fun fetcher_run ::
  "('o \<Rightarrow> 'k) \<Rightarrow> ('o, 'k, 'v) fetcher_state \<Rightarrow> ('o, 'v) fetcher_event list \<Rightarrow> ('o, 'k, 'v) fetcher_state" where
  "fetcher_run hash s [] = s"
| "fetcher_run hash s (e # es) = fetcher_run hash (fetcher_step hash s e) es"

text \<open>\<open>ensureDelay\<close>: requests \<open>{id, ms}\<close>, keyed by \<open>id\<close>.\<close>

record delay_req =
  delay_id :: string
  delay_ms :: nat

definition ensureDelay_hash :: "delay_req \<Rightarrow> string" where
  "ensureDelay_hash obj = delay_id obj"

text \<open>
  The host resolves the \<open>p\<close>-th promise of \<open>ensureDelay\<close> with the \<open>id\<close> of the
  \<open>p\<close>-th request (the \<open>setTimeout(() => resolve(id), ms)\<close> of line 82).
\<close>

definition delay_resolve :: "pid \<Rightarrow> (delay_req, string, string) fetcher_state \<Rightarrow> (delay_req, string, string) fetcher_state" where
  "delay_resolve p s =
     (if p < length (method_calls s) then fetcher_settle p (delay_id (method_calls s ! p)) s else s)"

datatype delay_event = DRead delay_req | DResolve pid

fun delay_step ::
  "(delay_req, string, string) fetcher_state \<Rightarrow> delay_event \<Rightarrow> (delay_req, string, string) fetcher_state" where
  "delay_step s (DRead obj) = snd (fetcher_read ensureDelay_hash obj s)"
| "delay_step s (DResolve p) = delay_resolve p s"

fun delay_run ::
  "(delay_req, string, string) fetcher_state \<Rightarrow> delay_event list \<Rightarrow> (delay_req, string, string) fetcher_state" where
  "delay_run s [] = s"
| "delay_run s (e # es) = delay_run (delay_step s e) es"

definition delay_ok :: "(delay_req, string, string) fetcher_state \<Rightarrow> bool" where
  "delay_ok s \<longleftrightarrow>
     (\<forall>k v. resolved s k = Some v \<longrightarrow> v = k) \<and>
     (\<forall>p k. fetcher_inflight s p = Some k \<longrightarrow>
        p < length (method_calls s) \<and> delay_id (method_calls s ! p) = k)"

subsection \<open>Lemmas\<close>

lemma fetcher_read_resolved [simp]: "resolved (snd (fetcher_read hash obj s)) = resolved s"
  by (simp add: fetcher_read_def Let_def split: option.split)

lemma fetcher_read_calls:
  "method_calls (snd (fetcher_read hash obj s)) =
     method_calls s @ (if resolved s (hash obj) = None then [obj] else [])"
  by (simp add: fetcher_read_def Let_def split: option.split)

lemma fetcher_settle_resolved_keep:
  "resolved s k \<noteq> None \<Longrightarrow> resolved (fetcher_settle p v s) k \<noteq> None"
  by (simp add: fetcher_settle_def split: option.split)

lemma fetcher_step_resolved_keep:
  "resolved s k \<noteq> None \<Longrightarrow> resolved (fetcher_step hash s e) k \<noteq> None"
  by (cases e) (simp_all add: fetcher_settle_resolved_keep)

lemma fetcher_run_resolved_keep:
  "resolved s k \<noteq> None \<Longrightarrow> resolved (fetcher_run hash s es) k \<noteq> None"
proof (induction es arbitrary: s)
  case (Cons e es)
  show ?case using Cons.IH [OF fetcher_step_resolved_keep [OF Cons.prems]] by simp
qed simp

lemma delay_step_ok: "delay_ok s \<Longrightarrow> delay_ok (delay_step s e)"
proof (cases e)
  case (DRead obj)
  assume ok: "delay_ok s"
  show ?thesis
  proof (cases "resolved s (delay_id obj)")
    case None
    have inf: "p < length (method_calls s) \<and> delay_id (method_calls s ! p) = k"
      if "fetcher_inflight s p = Some k" for p k
      using ok that by (simp add: delay_ok_def)
    have "p < Suc (length (method_calls s)) \<and>
          delay_id ((method_calls s @ [obj]) ! p) = k"
      if "((fetcher_inflight s)(length (method_calls s) \<mapsto> delay_id obj)) p = Some k" for p k
      using inf [of p k] that by (cases "p = length (method_calls s)") (auto simp: nth_append)
    with ok DRead None show ?thesis
      by (simp add: delay_ok_def fetcher_read_def ensureDelay_hash_def Let_def)
  next
    case (Some v)
    with ok DRead show ?thesis by (simp add: fetcher_read_def ensureDelay_hash_def)
  qed
next
  case (DResolve p)
  assume "delay_ok s"
  with DResolve show ?thesis
    by (auto simp: delay_ok_def delay_resolve_def fetcher_settle_def split: option.splits)
qed

lemma delay_run_ok: "delay_ok s \<Longrightarrow> delay_ok (delay_run s es)"
  by (induction es arbitrary: s) (simp_all add: delay_step_ok)

lemma delay_init_ok: "delay_ok fetcher_init"
  by (simp add: delay_ok_def fetcher_init_def)

section \<open>Properties of the simple fetcher\<close>

text \<open>
  C9 (no coalescing, spec 4.1 second variant). A batch of reads calls \<open>method\<close> once
  for every read whose key is unresolved, duplicates included: two reads of the same
  unresolved key start two fetches.
\<close>

theorem fetcher_reads_no_coalescing:
  "method_calls (fetcher_run hash s (map FRead objs)) =
   method_calls s @ filter (\<lambda>x. resolved s (hash x) = None) objs"
proof (induction objs arbitrary: s)
  case (Cons obj objs)
  then show ?case by (simp add: fetcher_read_calls)
qed simp

text \<open>
  C10 (synchronous once resolved). Once any fetch for a key has resolved, every later
  read of that key returns a value without throwing and without calling \<open>method\<close>,
  whatever reads and settlements follow.
\<close>

theorem fetcher_resolved_stays_ready:
  assumes "resolved s (hash obj) \<noteq> None"
  shows "\<exists>v. fetcher_read hash obj (fetcher_run hash s es) = (Ready v, fetcher_run hash s es)"
proof -
  have "resolved (fetcher_run hash s es) (hash obj) \<noteq> None"
    using assms by (rule fetcher_run_resolved_keep)
  then show ?thesis by (auto simp: fetcher_read_def)
qed

theorem fetcher_resolved_stays_ready_witness:
  "resolved (fetcher_settle 0 (3::int) (snd (fetcher_read id (1::nat) fetcher_init))) (id 1) \<noteq> None \<and>
   (\<exists>v. fetcher_read id (1::nat)
          (fetcher_run id (fetcher_settle 0 (3::int) (snd (fetcher_read id (1::nat) fetcher_init))) [FRead 2]) =
        (Ready v, fetcher_run id (fetcher_settle 0 (3::int) (snd (fetcher_read id (1::nat) fetcher_init))) [FRead 2]))"
proof -
  have h: "resolved (fetcher_settle 0 (3::int) (snd (fetcher_read id (1::nat) fetcher_init))) (id 1) \<noteq> None"
    by (simp add: fetcher_init_def fetcher_read_def fetcher_settle_def)
  show ?thesis
    using fetcher_resolved_stays_ready
      [of "fetcher_settle 0 (3::int) (snd (fetcher_read id (1::nat) fetcher_init))" id 1 "[FRead 2]"] h
    by simp
qed

text \<open>
  C11 (\<open>ensureDelay\<close> returns the request's id). When the host resolves each delay
  promise as the method of line 82 does, a read of \<open>ensureDelay\<close> that returns a
  value returns the \<open>id\<close> of its request, whatever the \<open>ms\<close> of the request that
  started the fetch.
\<close>

theorem ensureDelay_read_id:
  assumes "fst (fetcher_read ensureDelay_hash d (delay_run fetcher_init es)) = Ready v"
  shows "v = delay_id d"
proof -
  have "delay_ok (delay_run fetcher_init es)" using delay_init_ok by (rule delay_run_ok)
  with assms show ?thesis
    by (auto simp: delay_ok_def fetcher_read_def ensureDelay_hash_def Let_def split: option.splits)
qed

theorem ensureDelay_read_id_witness:
  "fst (fetcher_read ensureDelay_hash \<lparr>delay_id = ''fizz'', delay_ms = 2000\<rparr>
     (delay_run fetcher_init [DRead \<lparr>delay_id = ''fizz'', delay_ms = 1000\<rparr>, DResolve 0])) = Ready ''fizz'' \<and>
   ''fizz'' = delay_id \<lparr>delay_id = ''fizz'', delay_ms = 2000\<rparr>"
proof -
  have h: "fst (fetcher_read ensureDelay_hash \<lparr>delay_id = ''fizz'', delay_ms = 2000\<rparr>
     (delay_run fetcher_init [DRead \<lparr>delay_id = ''fizz'', delay_ms = 1000\<rparr>, DResolve 0])) = Ready ''fizz''"
    by (simp add: fetcher_init_def fetcher_read_def fetcher_settle_def delay_resolve_def
        ensureDelay_hash_def Let_def)
  show ?thesis using ensureDelay_read_id [OF h] h by simp
qed

end
