(* ===== verification/TimeoutGate.thy ===== *)
theory TimeoutGate
  imports Prelude
begin

text \<open>
  The timeout wrapper \<open>Timeout({ms, fallback, children})\<close> of \<open>src/src/index.js\<close>
  (lines 61--72) and the host gate \<open>React.Timeout\<close> it renders. The gate is not part of
  the repository; it is modelled from spec section 4.2: a one-shot timer armed at mount,
  an \<open>expired\<close> flag raised once \<open>ms\<close> milliseconds have elapsed, and a teardown that
  cancels the timer. Time advances by \<open>Tick dt\<close> events of the host event loop, so the
  timer fires at the first tick that brings the elapsed time to \<open>ms\<close> or beyond.
  Rendered output is a small element tree, \<open>view\<close>, with the \<open>hidden\<close> attribute
  of \<open><span>\<close> kept.
\<close>

datatype 'c view = VNull | VLeaf 'c | VFragment "'c view list" | VSpan bool "'c view"

text \<open>What the user sees (hidden spans contribute nothing) and what stays mounted.\<close>

fun visible :: "'c view \<Rightarrow> 'c list" where
  "visible VNull = []"
| "visible (VLeaf c) = [c]"
| "visible (VFragment vs) = concat (map visible vs)"
| "visible (VSpan hidden v) = (if hidden then [] else visible v)"

fun mounted :: "'c view \<Rightarrow> 'c list" where
  "mounted VNull = []"
| "mounted (VLeaf c) = [c]"
| "mounted (VFragment vs) = concat (map mounted vs)"
| "mounted (VSpan hidden v) = mounted v"

text \<open>The render function passed to \<open>React.Timeout\<close> (lines 64--69).\<close>

definition timeout_view :: "'c view \<Rightarrow> (bool \<Rightarrow> 'c view) \<Rightarrow> bool \<Rightarrow> 'c view" where
  "timeout_view fallback children didTimeout =
     VFragment [VSpan didTimeout (children didTimeout), (if didTimeout then fallback else VNull)]"

subsection \<open>The host gate (spec 4.2)\<close>

record gate =
  gate_ms :: nat
  elapsed :: nat
  expired :: bool
  timer_armed :: bool
  gate_mounted :: bool

definition gate_mount :: "nat \<Rightarrow> gate" where
  "gate_mount ms = \<lparr>gate_ms = ms, elapsed = 0, expired = False, timer_armed = True, gate_mounted = True\<rparr>"

definition gate_tick :: "nat \<Rightarrow> gate \<Rightarrow> gate" where
  "gate_tick dt g =
     (if \<not> gate_mounted g then g
      else
        (let t = elapsed g + dt; fire = timer_armed g \<and> gate_ms g \<le> t in
         g\<lparr>elapsed := t, expired := expired g \<or> fire, timer_armed := timer_armed g \<and> \<not> fire\<rparr>))"

definition gate_unmount :: "gate \<Rightarrow> gate" where
  "gate_unmount g = g\<lparr>timer_armed := False, gate_mounted := False\<rparr>"

datatype gate_event = Tick nat | Unmount

fun gate_step :: "gate \<Rightarrow> gate_event \<Rightarrow> gate" where
  "gate_step g (Tick dt) = gate_tick dt g"
| "gate_step g Unmount = gate_unmount g"

fun gate_run :: "gate \<Rightarrow> gate_event list \<Rightarrow> gate" where
  "gate_run g [] = g"
| "gate_run g (e # es) = gate_run (gate_step g e) es"

text \<open>\<open>Timeout\<close> as rendered by the gate: the wrapper's view at the gate's flag.\<close>

definition timeout_render :: "'c view \<Rightarrow> (bool \<Rightarrow> 'c view) \<Rightarrow> gate \<Rightarrow> 'c view" where
  "timeout_render fallback children g = timeout_view fallback children (expired g)"

subsection \<open>Lemmas\<close>

lemma gate_step_expired_mono: "expired g \<Longrightarrow> expired (gate_step g e)"
  by (cases e) (simp_all add: gate_tick_def gate_unmount_def Let_def)

lemma gate_run_expired_mono: "expired g \<Longrightarrow> expired (gate_run g es)"
  by (induction es arbitrary: g) (simp_all add: gate_step_expired_mono)

text \<open>A mounted gate under a run of ticks: the closed form of the timer.\<close>

lemma gate_run_ticks:
  "gate_mounted g \<Longrightarrow>
   gate_mounted (gate_run g (map Tick ds)) \<and>
   elapsed (gate_run g (map Tick ds)) = elapsed g + sum_list ds \<and>
   expired (gate_run g (map Tick ds)) =
     (expired g \<or> (timer_armed g \<and> ds \<noteq> [] \<and> gate_ms g \<le> elapsed g + sum_list ds)) \<and>
   timer_armed (gate_run g (map Tick ds)) =
     (timer_armed g \<and> \<not> (ds \<noteq> [] \<and> gate_ms g \<le> elapsed g + sum_list ds))"
proof (induction ds arbitrary: g)
  case Nil
  then show ?case by simp
next
  case (Cons d ds)
  have m: "gate_mounted (gate_tick d g)" using Cons.prems by (simp add: gate_tick_def Let_def)
  show ?case
    using Cons.IH [OF m] Cons.prems by (cases ds) (auto simp: gate_tick_def Let_def)
qed

lemma gate_unmounted_run:
  "\<not> gate_mounted g \<Longrightarrow> \<not> gate_mounted (gate_run g es) \<and> expired (gate_run g es) = expired g"
proof (induction es arbitrary: g)
  case (Cons e es)
  then show ?case by (cases e) (simp_all add: gate_tick_def gate_unmount_def)
qed simp

section \<open>Properties of the timeout wrapper\<close>

text \<open>
  C12 (spec P5). Under a gate mounted with duration \<open>ms\<close>, \<open>Timeout\<close> renders as
  unexpired until the ticks of the host clock add up to \<open>ms\<close>, and as expired from the
  first tick that does.
\<close>

theorem timeout_expires_at_ms:
  "timeout_render fallback children (gate_run (gate_mount ms) (map Tick ds)) =
   timeout_view fallback children (ds \<noteq> [] \<and> ms \<le> sum_list ds)"
  using gate_run_ticks [of "gate_mount ms" ds] by (simp add: gate_mount_def timeout_render_def)

text \<open>
  C13 (the flag never goes down, and teardown cancels the timer, spec 4.2 and 7(3)).
  Once the gate has expired, \<open>Timeout\<close> renders the expired view after any later
  events; after teardown, no later event changes what it renders.
\<close>

theorem timeout_monotone_and_teardown:
  "(expired g \<longrightarrow> timeout_render fallback children (gate_run g es) = timeout_view fallback children True) \<and>
   timeout_render fallback children (gate_run (gate_unmount g) es) = timeout_render fallback children g"
  using gate_run_expired_mono [of g es] gate_unmounted_run [of "gate_unmount g" es]
  by (simp add: gate_unmount_def timeout_render_def)

theorem timeout_monotone_and_teardown_witness:
  "expired (gate_run (gate_mount 10) [Tick 10]) \<and>
   timeout_render VNull VLeaf (gate_run (gate_run (gate_mount 10) [Tick 10]) [Tick 1, Unmount]) =
     timeout_view VNull VLeaf True \<and>
   timeout_render VNull VLeaf (gate_run (gate_unmount (gate_mount 10)) [Tick 20]) =
     timeout_render VNull VLeaf (gate_mount 10)"
proof -
  have h: "expired (gate_run (gate_mount 10) [Tick 10])"
    by (simp add: gate_mount_def gate_tick_def)
  show ?thesis
    using timeout_monotone_and_teardown [of "gate_run (gate_mount 10) [Tick 10]" VNull VLeaf "[Tick 1, Unmount]"]
      timeout_monotone_and_teardown [of "gate_mount 10" VNull VLeaf "[Tick 20]"] h
    by simp
qed

text \<open>
  C14 (render contract of \<open>Timeout\<close>, spec 4.2). The children stay mounted in both
  states, rendered with the current flag; what the user sees is the children's view for
  an unexpired gate and the fallback alone for an expired one.
\<close>

theorem timeout_view_contract:
  "visible (timeout_view fallback children d) =
     (if d then visible fallback else visible (children False)) \<and>
   mounted (timeout_view fallback children d) =
     mounted (children d) @ (if d then mounted fallback else [])"
  by (simp add: timeout_view_def)

end
