(* ===== verification/AsyncRoute.thy ===== *)
theory AsyncRoute
  imports Prelude
begin

text \<open>
  The route transition machine of \<open>src/src/index.js\<close>: the class component
  \<open>AsyncRouteRenderer\<close> (lines 152--200). Its props are those of the route plus the
  expiration flag that \<open>AsyncRoute\<close> (lines 137--150) reads from the context set by
  \<open>AsyncRouteProvider\<close>; its state is \<open>{incoming, outgoing}\<close> merged by
  \<open>setState\<close>, which also adds the key \<open>incomfing\<close> written on line 168 (a typo for
  \<open>incoming\<close>). \<open>componentDidUpdate\<close> is \<open>did_update\<close>, \<open>render\<close> is
  \<open>renderer_render\<close>. The spec's abstract machine (section 4.3), with the phases
  Steady, Incoming and Outgoing, is \<open>spec_next\<close>/\<open>spec_shows\<close>, and \<open>abs_phase\<close>
  maps a concrete state to its phase (none for the state with both flags set).
\<close>

record rprops =
  path :: string
  match :: bool
  didExpire :: bool

datatype 'c children_prop = NoChildren | ChildElem 'c | ChildFn "rprops \<Rightarrow> 'c"

record 'c route_elem =
  children :: "'c children_prop"
  render :: "(rprops \<Rightarrow> 'c) option"

record rstate =
  incoming :: bool
  outgoing :: bool
  incomfing :: "bool option"

definition rstate_init :: rstate where
  "rstate_init = \<lparr>incoming = False, outgoing = False, incomfing = None\<rparr>"

text \<open>
  The expression repeated on lines 179--181, 185--187 and 191--193: function children
  called with the props, other truthy children as they are, else the \<open>render\<close> prop,
  else \<open>null\<close> (\<open>None\<close>).
\<close>

definition route_content :: "'c route_elem \<Rightarrow> rprops \<Rightarrow> 'c option" where
  "route_content r p =
     (case children r of
        ChildFn f \<Rightarrow> Some (f p)
      | ChildElem c \<Rightarrow> Some c
      | NoChildren \<Rightarrow> (case render r of Some f \<Rightarrow> Some (f p) | None \<Rightarrow> None))"

text \<open>\<open>componentDidUpdate(prevProps)\<close>, lines 158--172, with \<open>setState\<close>'s merge.\<close>

definition did_update :: "rprops \<Rightarrow> rprops \<Rightarrow> rstate \<Rightarrow> rstate" where
  "did_update prev cur st =
     (if didExpire cur = didExpire prev then st
      else if match cur \<and> \<not> match prev then st\<lparr>incoming := True, outgoing := False\<rparr>
      else if \<not> match cur \<and> match prev then st\<lparr>incomfing := Some False, outgoing := True\<rparr>
      else st\<lparr>incoming := False, outgoing := False\<rparr>)"

text \<open>\<open>render()\<close>, lines 174--199.\<close>

definition renderer_render :: "'c route_elem \<Rightarrow> rprops \<Rightarrow> rstate \<Rightarrow> 'c option" where
  "renderer_render r p st =
     (if match p \<and> \<not> incoming st \<and> \<not> outgoing st \<and> \<not> didExpire p then route_content r p
      else if incoming st \<and> \<not> didExpire p then route_content r p
      else if incoming st \<and> didExpire p then None
      else if outgoing st \<and> didExpire p then route_content r p
      else if outgoing st \<and> \<not> didExpire p then None
      else None)"

text \<open>
  One instance over its life: mounted with props \<open>p0\<close> and state \<open>rstate_init\<close>, then
  updated with each props in turn. After an update React calls
  \<open>componentDidUpdate\<close> with the previous props; a \<open>setState\<close> there re-renders, and
  the second \<open>componentDidUpdate\<close> sees equal flags and returns (lemma
  \<open>did_update_same\<close>), so one update is one \<open>did_update\<close>.
\<close>

fun renderer_trace :: "rprops \<Rightarrow> rstate \<Rightarrow> rprops list \<Rightarrow> rstate" where
  "renderer_trace prev st [] = st"
| "renderer_trace prev st (p # ps) = renderer_trace p (did_update prev p st) ps"

subsection \<open>The abstract machine of spec section 4.3\<close>

datatype phase = Steady | Incoming | Outgoing

definition spec_next :: "rprops \<Rightarrow> rprops \<Rightarrow> phase \<Rightarrow> phase" where
  "spec_next prev cur ph =
     (if didExpire cur = didExpire prev then ph
      else if match cur \<and> \<not> match prev then Incoming
      else if \<not> match cur \<and> match prev then Outgoing
      else Steady)"

fun spec_shows :: "phase \<Rightarrow> bool \<Rightarrow> bool \<Rightarrow> bool" where
  "spec_shows Steady m e = (m \<and> \<not> e)"
| "spec_shows Incoming m e = (\<not> e)"
| "spec_shows Outgoing m e = e"

fun spec_trace :: "rprops \<Rightarrow> phase \<Rightarrow> rprops list \<Rightarrow> phase" where
  "spec_trace prev ph [] = ph"
| "spec_trace prev ph (p # ps) = spec_trace p (spec_next prev p ph) ps"

definition abs_phase :: "rstate \<Rightarrow> phase option" where
  "abs_phase st =
     (if incoming st \<and> outgoing st then None
      else if incoming st then Some Incoming
      else if outgoing st then Some Outgoing
      else Some Steady)"

subsection \<open>Lemmas\<close>

lemma did_update_same [simp]: "did_update p p st = st"
  by (simp add: did_update_def)

lemma abs_phase_init [simp]: "abs_phase rstate_init = Some Steady"
  by (simp add: abs_phase_def rstate_init_def)

lemma render_refines:
  "abs_phase st = Some ph \<Longrightarrow>
   renderer_render r p st = (if spec_shows ph (match p) (didExpire p) then route_content r p else None)"
  by (cases "incoming st"; cases "outgoing st"; cases ph)
    (simp_all add: abs_phase_def renderer_render_def)

text \<open>
  One update refines one abstract step except from Incoming into the outgoing branch,
  where the typo leaves \<open>incoming\<close> set.
\<close>

lemma did_update_refines:
  "abs_phase st = Some ph \<Longrightarrow>
   \<not> (ph = Incoming \<and> didExpire cur \<noteq> didExpire prev \<and> \<not> match cur \<and> match prev) \<Longrightarrow>
   abs_phase (did_update prev cur st) = Some (spec_next prev cur ph)"
  by (cases "incoming st"; cases "outgoing st"; cases ph)
    (auto simp: abs_phase_def did_update_def spec_next_def)

lemma renderer_trace_refines:
  "sorted (map didExpire (p0 # ps)) \<Longrightarrow> abs_phase st = Some ph \<Longrightarrow>
   (\<not> didExpire p0 \<longrightarrow> ph \<noteq> Incoming) \<Longrightarrow>
   abs_phase (renderer_trace p0 st ps) = Some (spec_trace p0 ph ps)"
proof (induction ps arbitrary: p0 st ph)
  case Nil
  then show ?case by simp
next
  case (Cons p ps)
  have le: "didExpire p0 \<le> didExpire p" and s1: "sorted (map didExpire (p # ps))"
    using Cons.prems(1) by (simp_all only: list.map sorted2_simps)
  have nb: "\<not> (ph = Incoming \<and> didExpire p \<noteq> didExpire p0 \<and> \<not> match p \<and> match p0)"
    using le Cons.prems(3) by (cases "didExpire p0"; cases "didExpire p") auto
  have step: "abs_phase (did_update p0 p st) = Some (spec_next p0 p ph)"
    by (rule did_update_refines [OF Cons.prems(2) nb])
  have c: "\<not> didExpire p \<longrightarrow> spec_next p0 p ph \<noteq> Incoming"
    using le Cons.prems(3) by (cases "didExpire p0"; cases "didExpire p") (auto simp: spec_next_def)
  show ?case using Cons.IH [OF s1 step c] by simp
qed

lemma renderer_trace_spec:
  "sorted (map didExpire (p0 # ps)) \<Longrightarrow>
   abs_phase (renderer_trace p0 rstate_init ps) = Some (spec_trace p0 Steady ps)"
  by (rule renderer_trace_refines) simp_all

section \<open>Properties of the route transition machine\<close>

text \<open>
  C15 (spec P6, under a monotone expiration flag). As long as the expiration flag the
  instance sees never goes back from true to false (the gate of spec 4.2), the instance
  is never both incoming and outgoing, whatever the sequence of route matches.
\<close>

theorem renderer_never_both:
  assumes "sorted (map didExpire (p0 # ps))"
  shows "\<not> (incoming (renderer_trace p0 rstate_init ps) \<and> outgoing (renderer_trace p0 rstate_init ps))"
  using renderer_trace_spec [OF assms] by (auto simp: abs_phase_def split: if_splits)

theorem renderer_never_both_witness:
  "sorted (map didExpire [\<lparr>path = ''/about'', match = False, didExpire = False\<rparr>,
                          \<lparr>path = ''/about'', match = True, didExpire = True\<rparr>]) \<and>
   \<not> (incoming (renderer_trace \<lparr>path = ''/about'', match = False, didExpire = False\<rparr> rstate_init
                  [\<lparr>path = ''/about'', match = True, didExpire = True\<rparr>]) \<and>
      outgoing (renderer_trace \<lparr>path = ''/about'', match = False, didExpire = False\<rparr> rstate_init
                  [\<lparr>path = ''/about'', match = True, didExpire = True\<rparr>]))"
proof -
  have h: "sorted (map didExpire [\<lparr>path = ''/about'', match = False, didExpire = False\<rparr>,
                          \<lparr>path = ''/about'', match = True, didExpire = True\<rparr>])"
    by (simp only: list.map rprops.select_convs sorted2_simps sorted1) simp
  show ?thesis using renderer_never_both [OF h] h by blast
qed

text \<open>
  C16 (refinement of the spec machine). Under a monotone expiration flag, after any
  sequence of props the concrete state is in the phase the abstract machine of spec 4.3
  computes, and the content rendered for the current props is the content the spec's
  decision table prescribes for that phase.
\<close>

theorem renderer_refines_spec:
  assumes "sorted (map didExpire (p0 # ps))"
  shows "abs_phase (renderer_trace p0 rstate_init ps) = Some (spec_trace p0 Steady ps) \<and>
         renderer_render r (last (p0 # ps)) (renderer_trace p0 rstate_init ps) =
           (if spec_shows (spec_trace p0 Steady ps) (match (last (p0 # ps))) (didExpire (last (p0 # ps)))
            then route_content r (last (p0 # ps)) else None)"
  using renderer_trace_spec [OF assms] render_refines by blast

theorem renderer_refines_spec_witness:
  "sorted (map didExpire [\<lparr>path = ''/'', match = True, didExpire = False\<rparr>,
                          \<lparr>path = ''/'', match = False, didExpire = True\<rparr>]) \<and>
   renderer_render \<lparr>children = NoChildren, render = Some (\<lambda>p. ''Home'')\<rparr>
     \<lparr>path = ''/'', match = False, didExpire = True\<rparr>
     (renderer_trace \<lparr>path = ''/'', match = True, didExpire = False\<rparr> rstate_init
        [\<lparr>path = ''/'', match = False, didExpire = True\<rparr>]) = Some ''Home''"
proof -
  have h: "sorted (map didExpire [\<lparr>path = ''/'', match = True, didExpire = False\<rparr>,
                          \<lparr>path = ''/'', match = False, didExpire = True\<rparr>])"
    by (simp only: list.map rprops.select_convs sorted2_simps sorted1) simp
  show ?thesis
    using renderer_refines_spec [OF h, of "\<lparr>children = NoChildren, render = Some (\<lambda>p. ''Home'')\<rparr>"] h
    by (simp add: spec_next_def route_content_def)
qed

text \<open>
  C17 (the \<open>incomfing\<close> typo breaks spec P6). From any Incoming state, an update in
  which the route stops matching while the flag changes takes the outgoing branch of
  line 168, which writes \<open>incomfing\<close> and leaves \<open>incoming\<close> set: the instance is then
  both incoming and outgoing. The spec enters Outgoing there, but \<open>render()\<close> treats the
  state as incoming and shows the route's content exactly when the spec's Outgoing row
  shows nothing. (This needs two changes of the flag, so it is reachable only when the
  flag can go back down, e.g. when a host \<open>Timeout\<close> resets it; C15 excludes it under
  the monotone gate.)
\<close>

theorem renderer_typo_both_flags:
  assumes "incoming st" and "match prev" and "\<not> match cur" and "didExpire cur \<noteq> didExpire prev"
  shows "incoming (did_update prev cur st) \<and> outgoing (did_update prev cur st) \<and>
         spec_next prev cur Incoming = Outgoing \<and>
         renderer_render r cur (did_update prev cur st) =
           (if spec_shows Outgoing (match cur) (didExpire cur) then None else route_content r cur)"
  using assms by (simp add: did_update_def spec_next_def renderer_render_def)

theorem renderer_typo_both_flags_witness:
  "incoming (did_update \<lparr>path = ''/about'', match = False, didExpire = False\<rparr>
               \<lparr>path = ''/about'', match = True, didExpire = True\<rparr> rstate_init) \<and>
   match \<lparr>path = ''/about'', match = True, didExpire = True\<rparr> \<and>
   \<not> match \<lparr>path = ''/about'', match = False, didExpire = False\<rparr> \<and>
   didExpire \<lparr>path = ''/about'', match = False, didExpire = False\<rparr> \<noteq>
     didExpire \<lparr>path = ''/about'', match = True, didExpire = True\<rparr> \<and>
   renderer_render \<lparr>children = NoChildren, render = Some (\<lambda>p. ''About'')\<rparr>
     \<lparr>path = ''/about'', match = False, didExpire = False\<rparr>
     (renderer_trace \<lparr>path = ''/about'', match = False, didExpire = False\<rparr> rstate_init
        [\<lparr>path = ''/about'', match = True, didExpire = True\<rparr>,
         \<lparr>path = ''/about'', match = False, didExpire = False\<rparr>]) = Some ''About''"
proof -
  have i: "incoming (did_update \<lparr>path = ''/about'', match = False, didExpire = False\<rparr>
               \<lparr>path = ''/about'', match = True, didExpire = True\<rparr> rstate_init)"
    by (simp add: did_update_def rstate_init_def)
  show ?thesis
    using renderer_typo_both_flags [OF i, where prev = "\<lparr>path = ''/about'', match = True, didExpire = True\<rparr>"
        and cur = "\<lparr>path = ''/about'', match = False, didExpire = False\<rparr>"
        and r = "\<lparr>children = NoChildren, render = Some (\<lambda>p. ''About'')\<rparr>"] i
    by (simp add: route_content_def)
qed

end
