(* ===== verification/RenderPass.thy ===== *)
theory RenderPass
  imports Complex_Main Resource
begin

text \<open>
  A render pass of a component that reads resources, and the host's suspend/retry loop
  (spec section 5). \<open>Stock\<close> (lines 102--112) reads \<open>ensureQuote.read(ticker)\<close>; in
  general a pass reads a list of requests in order and is aborted by the first thrown
  promise (\<open>render_reads\<close>). The host then waits for that promise, runs its callback
  and renders again (\<open>host_render\<close>); the promise's resolved value comes from the
  environment \<open>env\<close>. The host loop has a fuel bound, one unit per pass; the liveness
  theorem says how much fuel suffices.
\<close>

fun render_reads ::
  "('o \<Rightarrow> 'k) \<Rightarrow> 'o list \<Rightarrow> ('o, 'k, 'v) res_state \<Rightarrow> ('v list, pid) read_result \<times> ('o, 'k, 'v) res_state" where
  "render_reads g [] s = (Ready [], s)"
| "render_reads g (x # xs) s =
     (case resource_read g x s of
        (Ready v, s') \<Rightarrow>
          (case render_reads g xs s' of
             (Ready vs, s'') \<Rightarrow> (Ready (v # vs), s'')
           | (Suspend p, s'') \<Rightarrow> (Suspend p, s''))
      | (Suspend p, s') \<Rightarrow> (Suspend p, s'))"

fun host_render ::
  "nat \<Rightarrow> (pid \<Rightarrow> 'v) \<Rightarrow> ('o \<Rightarrow> 'k) \<Rightarrow> 'o list \<Rightarrow> ('o, 'k, 'v) res_state \<Rightarrow>
   ('v list \<times> ('o, 'k, 'v) res_state) option" where
  "host_render 0 env g xs s = None"
| "host_render (Suc n) env g xs s =
     (case render_reads g xs s of
        (Ready vs, s') \<Rightarrow> Some (vs, s')
      | (Suspend p, s') \<Rightarrow> host_render n env g xs (resource_settle p (env p) s'))"

text \<open>The rejections in a sequence of cache events.\<close>

fun rejects :: "('k, 'v) res_event list \<Rightarrow> pid list" where
  "rejects [] = []"
| "rejects (Reject p # es) = p # rejects es"
| "rejects (e # es) = rejects es"

text \<open>The fields of a quote that \<open>Stock\<close> renders (line 109).\<close>

record quote =
  companyName :: string
  symbol :: string
  change :: real

text \<open>\<open>Stock({ticker})\<close>: one read of \<open>ensureQuote\<close>, whose key is the ticker.\<close>

definition stock_render ::
  "string \<Rightarrow> (string, string, 'v) res_state \<Rightarrow> ('v, pid) read_result \<times> (string, string, 'v) res_state" where
  "stock_render ticker s = resource_read id ticker s"

text \<open>Every pending promise is still in flight: what a rejection breaks.\<close>

definition res_live :: "('o, 'k, 'v) res_state \<Rightarrow> bool" where
  "res_live s \<longleftrightarrow> (\<forall>k p. pending s k = Some p \<longrightarrow> inflight s p = Some k) \<and> res_fresh s"

definition uncached :: "('o \<Rightarrow> 'k) \<Rightarrow> 'o list \<Rightarrow> ('o, 'k, 'v) res_state \<Rightarrow> nat" where
  "uncached g xs s = length (filter (\<lambda>x. cache s (g x) = None) xs)"

subsection \<open>Lemmas\<close>

lemma resource_read_fresh: "res_fresh s \<Longrightarrow> res_fresh (snd (resource_read g x s))"
  by (fastforce simp: res_fresh_def resource_read_def Let_def split: option.splits)

lemma resource_settle_fresh: "res_fresh s \<Longrightarrow> res_fresh (resource_settle p v s)"
  by (fastforce simp: res_fresh_def resource_settle_def split: option.splits)

lemma resource_read_live: "res_live s \<Longrightarrow> res_live (snd (resource_read g x s))"
proof -
  assume l: "res_live s"
  then have "res_fresh (snd (resource_read g x s))"
    by (simp add: res_live_def resource_read_fresh)
  moreover have "q \<noteq> length (calls s)" if "pending s k = Some q" for k q
    using l that by (fastforce simp: res_live_def res_fresh_def)
  ultimately show ?thesis
    using l by (auto simp: res_live_def resource_read_def Let_def split: option.splits)
qed

lemma resource_settle_live:
  assumes "res_live s" shows "res_live (resource_settle p v s)"
proof (cases "inflight s p")
  case (Some k)
  have "inflight s q = Some k'" if "pending s k' = Some q" for k' q
    using assms that by (simp add: res_live_def)
  moreover have "res_fresh (resource_settle p v s)"
    using assms by (simp add: res_live_def resource_settle_fresh)
  ultimately show ?thesis
    using Some by (auto simp: res_live_def resource_settle_def)
qed (use assms in \<open>simp add: resource_settle_def\<close>)

lemma resource_read_suspend_pending:
  "resource_read g x s = (Suspend p, s1) \<Longrightarrow> pending s1 (g x) = Some p \<and> cache s1 = cache s"
  by (auto simp: resource_read_def Let_def split: option.splits)

lemma resource_read_uncached_suspends:
  "cache s (g x) = None \<Longrightarrow> \<exists>p s1. resource_read g x s = (Suspend p, s1)"
  by (auto simp: resource_read_def Let_def split: option.splits)

lemma render_reads_facts:
  "render_reads g xs s = (r, s') \<Longrightarrow> res_live s \<Longrightarrow>
   res_live s' \<and> cache s' = cache s \<and>
   (\<forall>p. r = Suspend p \<longrightarrow> (\<exists>x \<in> set xs. cache s (g x) = None \<and> inflight s' p = Some (g x))) \<and>
   (\<forall>vs. r = Ready vs \<longrightarrow> list_all2 (\<lambda>x v. cache s (g x) = Some v) xs vs)"
proof (induction xs arbitrary: s r s')
  case Nil
  then show ?case by auto
next
  case (Cons x xs)
  show ?case
  proof (cases "cache s (g x)")
    case None
    then obtain p s1 where rd: "resource_read g x s = (Suspend p, s1)"
      using resource_read_uncached_suspends [of s g x] None by auto
    have l1: "res_live s1" using resource_read_live [OF Cons.prems(2), of g x] rd by simp
    have pc: "pending s1 (g x) = Some p" "cache s1 = cache s"
      using resource_read_suspend_pending [OF rd] by auto
    then have "inflight s1 p = Some (g x)" using l1 by (simp add: res_live_def)
    with Cons.prems(1) rd l1 pc None show ?thesis by auto
  next
    case (Some v)
    then have rd: "resource_read g x s = (Ready v, s)" by (rule resource_read_hit)
    obtain r' s'' where rr: "render_reads g xs s = (r', s'')" by fastforce
    from Cons.IH [OF rr Cons.prems(2)] Cons.prems(1) rd rr Some show ?thesis
      by (cases r') auto
  qed
qed

lemma cache_mono_uncached:
  assumes "\<And>k v. cache s k = Some v \<Longrightarrow> cache t k = Some v"
  shows "uncached g xs t \<le> uncached g xs s"
  unfolding uncached_def
proof (induction xs)
  case (Cons a xs)
  then show ?case using assms [of "g a"] by (cases "cache s (g a)") auto
qed simp

lemma uncached_strict:
  assumes "\<And>k v. cache s k = Some v \<Longrightarrow> cache t k = Some v"
    and "x \<in> set xs" "cache s (g x) = None" "cache t (g x) \<noteq> None"
  shows "uncached g xs t < uncached g xs s"
  using assms(2)
proof (induction xs)
  case (Cons a xs)
  show ?case
  proof (cases "cache s (g a) = None \<and> cache t (g a) \<noteq> None")
    case True
    then show ?thesis
      using cache_mono_uncached [of s t g xs, OF assms(1)] by (auto simp: uncached_def)
  next
    case False
    with Cons.prems assms(3,4) have "x \<in> set xs" by auto
    then have "uncached g xs t < uncached g xs s" by (rule Cons.IH)
    then show ?thesis using assms(1) [of "g a"] False by (cases "cache s (g a)") (auto simp: uncached_def)
  qed
qed simp

lemma res_live_init [simp]: "res_live res_init"
  by (simp add: res_live_def res_fresh_def res_init_def)

lemma res_live_cache_upd [simp]: "res_live (s\<lparr>cache := c\<rparr>) = res_live s"
  by (simp add: res_live_def res_fresh_def)

lemma res_step_live:
  assumes "\<And>p. e \<noteq> Reject p" and l: "res_live s"
  shows "res_live (res_step g s e)"
proof (cases e)
  case Flush
  with l show ?thesis by (simp add: res_live_def res_fresh_def resource_flush_def)
next
  case (Reject p)
  with assms(1) show ?thesis by blast
qed (use l in \<open>simp_all add: resource_read_live resource_settle_live resource_refetch_def\<close>)

lemma res_run_live: "rejects es = [] \<Longrightarrow> res_live s \<Longrightarrow> res_live (res_run g s es)"
proof (induction es arbitrary: s)
  case (Cons e es)
  then have "rejects es = []" and "\<And>p. e \<noteq> Reject p" by (cases e; simp)+
  with Cons show ?case by (simp add: res_step_live)
qed simp

lemma host_render_progress:
  "res_live s \<Longrightarrow> uncached g xs s < fuel \<Longrightarrow>
   \<exists>vs s'. host_render fuel env g xs s = Some (vs, s') \<and> list_all2 (\<lambda>x v. cache s' (g x) = Some v) xs vs"
proof (induction fuel arbitrary: s)
  case 0
  then show ?case by simp
next
  case (Suc n)
  obtain r s1 where rr: "render_reads g xs s = (r, s1)" by fastforce
  note f = render_reads_facts [OF rr Suc.prems(1)]
  show ?case
  proof (cases r)
    case (Ready vs)
    with rr f show ?thesis by simp
  next
    case (Suspend p)
    with f obtain x where x: "x \<in> set xs" "cache s (g x) = None" "inflight s1 p = Some (g x)"
      by blast
    let ?s2 = "resource_settle p (env p) s1"
    have c2: "cache ?s2 = (cache s)(g x \<mapsto> env p)"
      using x(3) f by (simp add: resource_settle_def)
    have "uncached g xs ?s2 < uncached g xs s"
      by (rule uncached_strict [of s ?s2 x xs g]) (use c2 x in auto)
    moreover have "res_live ?s2" using f by (simp add: resource_settle_live)
    ultimately show ?thesis using Suc.IH [of ?s2] Suc.prems(2) rr Suspend by simp
  qed
qed

lemma uncached_le_length: "uncached g xs s \<le> length xs"
  by (simp add: uncached_def)

lemma render_reads_stuck:
  fixes t :: "('k, 'k, 'v) res_state"
  shows "render_reads g xs t = (r, t') \<Longrightarrow> res_stuck k p t \<Longrightarrow> res_stuck k p t'"
proof (induction xs arbitrary: t r t')
  case (Cons x xs)
  have st1: "res_stuck k p (snd (resource_read g x t))"
    using res_step_stuck [OF _ Cons.prems(2), of "Read x" g] by simp
  show ?case
  proof (cases "resource_read g x t")
    case (Pair r1 t1)
    show ?thesis
    proof (cases r1)
      case (Ready v)
      obtain r2 t2 where rr: "render_reads g xs t1 = (r2, t2)" by fastforce
      with Cons.prems(1) Pair Ready have "t' = t2" by (cases r2) auto
      with Cons.IH [OF rr] st1 Pair show ?thesis by simp
    next
      case (Suspend q)
      with Cons.prems(1) Pair st1 show ?thesis by simp
    qed
  qed
qed simp

lemma resource_read_ready:
  "fst (resource_read g x s) = Ready v \<Longrightarrow> cache s (g x) = Some v"
  by (auto simp: resource_read_def Let_def split: option.splits)

lemma render_reads_ready_cached:
  "render_reads g xs s = (Ready vs, s') \<Longrightarrow> x \<in> set xs \<Longrightarrow> cache s (g x) \<noteq> None"
proof (induction xs arbitrary: s vs s')
  case (Cons y ys)
  obtain r1 s1 where rd: "resource_read g y s = (r1, s1)" by fastforce
  then obtain v where r1: "r1 = Ready v"
    using Cons.prems(1) by (cases r1) auto
  with rd have cy: "cache s (g y) = Some v" and s1: "s1 = s"
    using resource_read_ready [of g y s v] resource_read_hit [of s g y v] by auto
  obtain r2 s2 where rr: "render_reads g ys s = (r2, s2)" by fastforce
  with Cons.prems(1) rd r1 s1 obtain vs' where "r2 = Ready vs'" by (cases r2) auto
  with Cons.IH [of s vs' s2] rr cy Cons.prems(2) show ?case by auto
qed simp

lemma host_render_stuck:
  fixes t :: "('k, 'k, 'v) res_state"
  shows "res_stuck k p t \<Longrightarrow> k \<in> g ` set xs \<Longrightarrow> host_render fuel env g xs t = None"
proof (induction fuel arbitrary: t)
  case (Suc n)
  obtain r t1 where rr: "render_reads g xs t = (r, t1)" by fastforce
  have st1: "res_stuck k p t1" by (rule render_reads_stuck [OF rr Suc.prems(1)])
  have ck: "cache t k = None"
    using Suc.prems(1) by (auto simp: res_stuck_def res_inv_def res_disjoint_def)
  obtain q where q: "r = Suspend q"
  proof (cases r)
    case (Ready vs)
    with rr ck Suc.prems(2) render_reads_ready_cached [of g xs t vs t1] show ?thesis by fastforce
  qed
  have "res_stuck k p (resource_settle q (env q) t1)"
    using res_step_stuck [OF _ st1, of "Settle q (env q)" g] by simp
  with Suc.IH Suc.prems(2) rr q show ?case by simp
qed simp

lemma uncached_other:
  "\<forall>y \<in> set xs. g y \<noteq> k \<Longrightarrow> cache t = (cache s)(k \<mapsto> v) \<Longrightarrow> uncached g xs t = uncached g xs s"
  unfolding uncached_def by (induction xs) auto

lemma uncached_settle_one:
  "distinct (map g xs) \<Longrightarrow> x \<in> set xs \<Longrightarrow> cache s (g x) = None \<Longrightarrow> cache t = (cache s)(g x \<mapsto> v) \<Longrightarrow>
   Suc (uncached g xs t) = uncached g xs s"
proof (induction xs)
  case (Cons a xs)
  show ?case
  proof (cases "g a = g x")
    case True
    then have "\<forall>y \<in> set xs. g y \<noteq> g x" using Cons.prems(1) by (auto simp: image_iff)
    then have "uncached g xs t = uncached g xs s" using Cons.prems(4) by (rule uncached_other)
    with True Cons.prems(3,4) show ?thesis by (simp add: uncached_def)
  next
    case False
    with Cons.prems have "Suc (uncached g xs t) = uncached g xs s" by (intro Cons.IH) auto
    with False Cons.prems(4) show ?thesis by (simp add: uncached_def)
  qed
qed simp

lemma uncached_pos: "0 < uncached g xs s \<Longrightarrow> \<exists>x \<in> set xs. cache s (g x) = None"
  by (simp add: uncached_def filter_empty_conv)

lemma host_render_lower:
  "res_live s \<Longrightarrow> distinct (map g xs) \<Longrightarrow> fuel \<le> uncached g xs s \<Longrightarrow> host_render fuel env g xs s = None"
proof (induction fuel arbitrary: s)
  case (Suc n)
  obtain r s1 where rr: "render_reads g xs s = (r, s1)" by fastforce
  note f = render_reads_facts [OF rr Suc.prems(1)]
  obtain x where x: "x \<in> set xs" "cache s (g x) = None" using uncached_pos [of g xs s] Suc.prems(3) by auto
  obtain p where p: "r = Suspend p"
  proof (cases r)
    case (Ready vs)
    with rr x render_reads_ready_cached [of g xs s vs s1] show ?thesis by blast
  qed
  with f obtain x' where x': "x' \<in> set xs" "cache s (g x') = None" "inflight s1 p = Some (g x')"
    by blast
  let ?s2 = "resource_settle p (env p) s1"
  have "cache ?s2 = (cache s)(g x' \<mapsto> env p)"
    using x'(3) f by (simp add: resource_settle_def)
  then have "Suc (uncached g xs ?s2) = uncached g xs s"
    using uncached_settle_one [OF Suc.prems(2) x'(1,2)] by blast
  moreover have "res_live ?s2" using f by (simp add: resource_settle_live)
  ultimately show ?case using Suc.IH [of ?s2] Suc.prems(2,3) rr p by simp
qed simp

section \<open>Properties of the suspend/retry loop\<close>

text \<open>
  C18 (liveness of suspension, spec sections 5 and 7(2)). In any state the cache reaches
  without a rejected fetch, a render pass reading \<open>xs\<close> completes if the host retries it
  after each settlement at most \<open>length xs + 1\<close> times, and it returns, for each
  request in order, the value cached for its key.
\<close>

theorem host_render_completes:
  assumes "rejects es = []" and "length xs < fuel"
  shows "\<exists>vs s'. host_render fuel env g xs (res_run g res_init es) = Some (vs, s') \<and>
                 list_all2 (\<lambda>x v. cache s' (g x) = Some v) xs vs"
proof -
  have "res_live (res_run g res_init es)" using assms(1) by (simp add: res_run_live)
  moreover have "uncached g xs (res_run g res_init es) < fuel"
    using uncached_le_length [of g xs] assms(2) by (rule le_less_trans)
  ultimately show ?thesis by (rule host_render_progress)
qed

theorem host_render_completes_witness:
  "rejects [Read ''aapl'', Flush] = [] \<and> length [''aapl'', ''msft''] < (3::nat) \<and>
   (\<exists>vs s'. host_render 3 (\<lambda>p. (7::int)) id [''aapl'', ''msft'']
              (res_run id res_init [Read ''aapl'', Flush]) = Some (vs, s') \<and>
            list_all2 (\<lambda>x v. cache s' (id x) = Some v) [''aapl'', ''msft''] vs)"
proof -
  have h: "rejects [Read ''aapl'', Flush] = []" by simp
  have l: "length [''aapl'', ''msft''] < (3::nat)" by simp
  show ?thesis using host_render_completes [OF h l, of "\<lambda>p. (7::int)" id] h l by simp
qed

text \<open>
  C19 (a rejected fetch blocks the page forever, spec section 7(1)). If the fetch for a
  key the pass reads was rejected, the host's retry loop never completes, however much
  fuel it is given.
\<close>

theorem host_render_rejected_never_completes:
  assumes "Flush \<notin> set es0" and "inflight (res_run g res_init es0) p = Some k"
    and "k \<in> g ` set xs"
  shows "host_render fuel env g xs (resource_reject p (res_run g res_init es0)) = None"
  using res_reject_stuck [OF assms(1,2)] assms(3) by (rule host_render_stuck)

theorem host_render_rejected_never_completes_witness:
  "Flush \<notin> set [Read ''aapl''] \<and>
   inflight (res_run id res_init [Read ''aapl'']) 0 = Some ''aapl'' \<and>
   ''aapl'' \<in> id ` set [''aapl''] \<and>
   host_render 100 (\<lambda>p. (1::int)) id [''aapl''] (resource_reject 0 (res_run id res_init [Read ''aapl''])) = None"
proof -
  have h: "inflight (res_run id res_init [Read ''aapl'']) 0 = Some ''aapl''"
    by (simp add: res_init_def resource_read_def Let_def)
  have k: "''aapl'' \<in> id ` set [''aapl'']" by simp
  show ?thesis
    using host_render_rejected_never_completes [OF _ h k, of 100 "\<lambda>p. (1::int)"] h k by simp
qed

text \<open>
  C27 (the waterfall: one pass per uncached key, and not fewer). In a state reached
  without a rejected fetch, a pass reading requests with distinct keys completes within
  \<open>fuel\<close> passes exactly when fewer than \<open>fuel\<close> of its keys are uncached: each pass
  stops at the first uncached key and its settlement caches that key only. A page
  reading \<open>n\<close> fresh keys renders \<open>n + 1\<close> times.
\<close>

theorem host_render_exact_passes:
  assumes "rejects es = []" and "distinct (map g xs)"
  shows "host_render fuel env g xs (res_run g res_init es) \<noteq> None \<longleftrightarrow>
         uncached g xs (res_run g res_init es) < fuel"
proof -
  have l: "res_live (res_run g res_init es)" using assms(1) by (simp add: res_run_live)
  show ?thesis
    using host_render_progress [OF l, of g xs fuel env] host_render_lower [OF l assms(2), of fuel env]
    by (cases "uncached g xs (res_run g res_init es) < fuel") auto
qed

theorem host_render_exact_passes_witness:
  "rejects ([] :: (string, int) res_event list) = [] \<and> distinct (map id [''aapl'', ''msft'']) \<and>
   (host_render 2 (\<lambda>p. (1::int)) id [''aapl'', ''msft''] (res_run id res_init []) \<noteq> None \<longleftrightarrow>
    uncached id [''aapl'', ''msft''] (res_run id res_init ([] :: (string, int) res_event list)) < 2) \<and>
   uncached id [''aapl'', ''msft''] (res_run id res_init ([] :: (string, int) res_event list)) = 2"
proof -
  have h: "rejects ([] :: (string, int) res_event list) = []" by simp
  have d: "distinct (map id [''aapl'', ''msft''])" by simp
  have u: "uncached id [''aapl'', ''msft''] (res_run id res_init ([] :: (string, int) res_event list)) = 2"
    by (simp add: uncached_def res_init_def)
  show ?thesis using host_render_exact_passes [OF h d, of 2 "\<lambda>p. (1::int)"] h d u by simp
qed

text \<open>
  C29 (suspend and resume round trip, spec section 5). In a state reached without a
  rejected fetch, if a read throws promise \<open>p\<close> (a new fetch or a pending one), then
  once \<open>p\<close> settles with \<open>v\<close> the same read returns \<open>v\<close> synchronously: the thrown
  promise is the one whose settlement the retried render needs.
\<close>

theorem resource_suspend_settle_roundtrip:
  assumes "rejects es = []" and "resource_read g x (res_run g res_init es) = (Suspend p, s')"
  shows "resource_read g x (resource_settle p v s') = (Ready v, resource_settle p v s')"
proof -
  have "res_live (res_run g res_init es)" using assms(1) by (simp add: res_run_live)
  then have "res_live s'" using resource_read_live [of "res_run g res_init es" g x] assms(2) by simp
  moreover have "pending s' (g x) = Some p" using resource_read_suspend_pending [OF assms(2)] by simp
  ultimately have "inflight s' p = Some (g x)" by (simp add: res_live_def)
  then show ?thesis by (simp add: resource_settle_caches resource_read_hit)
qed

theorem resource_suspend_settle_roundtrip_witness:
  "rejects [Read ''aapl'', Settle 0 (1::int), Flush] = [] \<and>
   resource_read id ''msft'' (res_run id res_init [Read ''aapl'', Settle 0 (1::int), Flush]) =
     (Suspend 1, snd (resource_read id ''msft'' (res_run id res_init [Read ''aapl'', Settle 0 (1::int), Flush]))) \<and>
   resource_read id ''msft''
     (resource_settle 1 5 (snd (resource_read id ''msft'' (res_run id res_init [Read ''aapl'', Settle 0 (1::int), Flush])))) =
   (Ready 5, resource_settle 1 5 (snd (resource_read id ''msft'' (res_run id res_init [Read ''aapl'', Settle 0 (1::int), Flush]))))"
proof -
  have h: "rejects [Read ''aapl'', Settle 0 (1::int), Flush] = []" by simp
  have r: "resource_read id ''msft'' (res_run id res_init [Read ''aapl'', Settle 0 (1::int), Flush]) =
     (Suspend 1, snd (resource_read id ''msft'' (res_run id res_init [Read ''aapl'', Settle 0 (1::int), Flush])))"
    by (simp add: res_init_def resource_defs)
  show ?thesis using resource_suspend_settle_roundtrip [OF h r, of 5] h r by simp
qed

end
