(* ===== verification/Pages.thy ===== *)
theory Pages
  imports RenderPass Fetcher
begin

text \<open>
  The pages of the route table, which read both kinds of cache. \<open>Stock\<close> (lines
  102--112) reads \<open>ensureQuote\<close>, a \<open>createResource\<close>; \<open>Delay\<close> (lines 115--118) reads
  \<open>ensureDelay\<close>, a \<open>createFetcher\<close>, and renders its \<open>id\<close>. The \<open>/about\<close> page renders
  a \<open>Stock\<close> and a \<open>Delay\<close> (lines 243--249), the \<open>/settings\<close> page two \<open>Delay\<close>s
  (lines 256--264). A page is the list of these leaves in render order; its state holds
  both caches. A render pass is aborted by the first leaf that throws (spec section 5),
  and the thrown promise says which cache it belongs to. The host waits for that promise,
  runs its callback and renders again; it also adds up the milliseconds it waited: a delay
  promise resolves after the \<open>ms\<close> of the request that created it (line 82), a quote
  promise after a latency given by the environment.
\<close>

datatype page_item = PStock string | PDelay delay_req

datatype page_out = OStock quote | ODelay string

datatype promise = QuoteP pid | DelayP pid

record page_state =
  quotes :: "(string, string, quote) res_state"
  delays :: "(delay_req, string, string) fetcher_state"

definition page_init :: page_state where
  "page_init = \<lparr>quotes = res_init, delays = fetcher_init\<rparr>"

text \<open>\<open>Delay({id, ms})\<close>: reads \<open>ensureDelay\<close> and renders \<open>id\<close>, not the value read.\<close>

definition delay_render ::
  "delay_req \<Rightarrow> (delay_req, string, string) fetcher_state \<Rightarrow>
   (string, pid) read_result \<times> (delay_req, string, string) fetcher_state" where
  "delay_render d s =
     (case fetcher_read ensureDelay_hash \<lparr>delay_id = delay_id d, delay_ms = delay_ms d\<rparr> s of
        (Ready l, s') \<Rightarrow> (Ready (delay_id d), s')
      | (Suspend p, s') \<Rightarrow> (Suspend p, s'))"

fun item_render :: "page_item \<Rightarrow> page_state \<Rightarrow> (page_out, promise) read_result \<times> page_state" where
  "item_render (PStock t) ps =
     (case stock_render t (quotes ps) of
        (Ready q, s') \<Rightarrow> (Ready (OStock q), ps\<lparr>quotes := s'\<rparr>)
      | (Suspend p, s') \<Rightarrow> (Suspend (QuoteP p), ps\<lparr>quotes := s'\<rparr>))"
| "item_render (PDelay d) ps =
     (case delay_render d (delays ps) of
        (Ready i, s') \<Rightarrow> (Ready (ODelay i), ps\<lparr>delays := s'\<rparr>)
      | (Suspend p, s') \<Rightarrow> (Suspend (DelayP p), ps\<lparr>delays := s'\<rparr>))"

fun page_render :: "page_item list \<Rightarrow> page_state \<Rightarrow> (page_out list, promise) read_result \<times> page_state" where
  "page_render [] ps = (Ready [], ps)"
| "page_render (i # rest) ps =
     (case item_render i ps of
        (Ready o1, ps') \<Rightarrow>
          (case page_render rest ps' of
             (Ready os, ps'') \<Rightarrow> (Ready (o1 # os), ps'')
           | (Suspend p, ps'') \<Rightarrow> (Suspend p, ps''))
      | (Suspend p, ps') \<Rightarrow> (Suspend p, ps'))"

text \<open>The leaves of the \<open>/settings\<close> page (lines 256--264).\<close>

definition settings_page :: "page_item list" where
  "settings_page = [PDelay \<lparr>delay_id = ''fizz'', delay_ms = 1000\<rparr>, PDelay \<lparr>delay_id = ''buzz'', delay_ms = 2000\<rparr>]"

text \<open>The host: run the callback of the awaited promise; how long it waited for it.\<close>

fun page_settle :: "(pid \<Rightarrow> quote) \<Rightarrow> promise \<Rightarrow> page_state \<Rightarrow> page_state" where
  "page_settle qenv (QuoteP p) ps = ps\<lparr>quotes := resource_settle p (qenv p) (quotes ps)\<rparr>"
| "page_settle qenv (DelayP p) ps = ps\<lparr>delays := delay_resolve p (delays ps)\<rparr>"

fun promise_wait :: "(pid \<Rightarrow> nat) \<Rightarrow> promise \<Rightarrow> page_state \<Rightarrow> nat" where
  "promise_wait qlat (QuoteP p) ps = qlat p"
| "promise_wait qlat (DelayP p) ps =
     (if p < length (method_calls (delays ps)) then delay_ms (method_calls (delays ps) ! p) else 0)"

fun page_host ::
  "nat \<Rightarrow> (pid \<Rightarrow> quote) \<Rightarrow> (pid \<Rightarrow> nat) \<Rightarrow> page_item list \<Rightarrow> page_state \<Rightarrow> nat \<Rightarrow>
   (page_out list \<times> page_state \<times> nat) option" where
  "page_host 0 qenv qlat items ps t = None"
| "page_host (Suc n) qenv qlat items ps t =
     (case page_render items ps of
        (Ready os, ps') \<Rightarrow> Some (os, ps', t)
      | (Suspend pr, ps') \<Rightarrow>
          page_host n qenv qlat items (page_settle qenv pr ps') (t + promise_wait qlat pr ps'))"

text \<open>What a leaf shows once its data is there, and whether its data is there.\<close>

fun item_shown :: "page_state \<Rightarrow> page_item \<Rightarrow> page_out \<Rightarrow> bool" where
  "item_shown ps (PStock t) (OStock q) = (cache (quotes ps) t = Some q)"
| "item_shown ps (PDelay d) (ODelay i) = (i = delay_id d)"
| "item_shown ps i out = False"

fun item_ready :: "page_state \<Rightarrow> page_item \<Rightarrow> bool" where
  "item_ready ps (PStock t) = (cache (quotes ps) t \<noteq> None)"
| "item_ready ps (PDelay d) = (resolved (delays ps) (delay_id d) \<noteq> None)"

definition page_missing :: "page_item list \<Rightarrow> page_state \<Rightarrow> nat" where
  "page_missing items ps = length (filter (\<lambda>i. \<not> item_ready ps i) items)"

definition page_ok :: "page_state \<Rightarrow> bool" where
  "page_ok ps \<longleftrightarrow> res_live (quotes ps)"

subsection \<open>Lemmas\<close>

lemma page_ok_init [simp]: "page_ok page_init"
  by (simp add: page_ok_def page_init_def)

lemma delay_render_state:
  "snd (delay_render d s) = snd (fetcher_read ensureDelay_hash \<lparr>delay_id = delay_id d, delay_ms = delay_ms d\<rparr> s)"
  by (simp add: delay_render_def split: prod.split read_result.split)

lemma item_render_state:
  "snd (item_render (PStock t) ps) = ps\<lparr>quotes := snd (resource_read id t (quotes ps))\<rparr>"
  "snd (item_render (PDelay d) ps) = ps\<lparr>delays := snd (delay_render d (delays ps))\<rparr>"
  by (simp_all add: stock_render_def split: prod.split read_result.split)

lemma item_render_caches:
  assumes "item_render i ps = (r, ps')" and "page_ok ps"
  shows "cache (quotes ps') = cache (quotes ps) \<and> resolved (delays ps') = resolved (delays ps) \<and> page_ok ps'"
proof -
  have "ps' = snd (item_render i ps)" using assms(1) by simp
  with assms(2) show ?thesis
    by (cases i) (simp_all add: item_render_state delay_render_state page_ok_def resource_read_live
        del: item_render.simps)
qed

lemma item_render_ready: "item_render i ps = (Ready out, ps') \<Longrightarrow> item_shown ps i out"
  by (cases i) (auto simp: stock_render_def delay_render_def resource_read_def fetcher_read_def
      ensureDelay_hash_def Let_def split: prod.splits read_result.splits option.splits)

lemma item_render_suspend:
  assumes "item_render i ps = (Suspend pr, ps')" and "page_ok ps"
  shows "\<not> item_ready ps i \<and> item_ready (page_settle qenv pr ps') i"
proof (cases i)
  case (PStock t)
  with assms(1) obtain p where rd: "resource_read id t (quotes ps) = (Suspend p, quotes ps')"
    and pr: "pr = QuoteP p"
    by (auto simp: stock_render_def split: prod.splits read_result.splits)
  have "res_live (quotes ps')" using resource_read_live [of "quotes ps" id t] assms(2) rd
    by (simp add: page_ok_def)
  moreover have "pending (quotes ps') t = Some p" "cache (quotes ps') = cache (quotes ps)"
    using resource_read_suspend_pending [OF rd] by auto
  ultimately have "inflight (quotes ps') p = Some t" by (simp add: res_live_def)
  moreover have "cache (quotes ps) t = None"
    using rd by (auto simp: resource_read_def Let_def split: option.splits)
  ultimately show ?thesis using PStock pr by (simp add: resource_settle_caches)
next
  case (PDelay d)
  with assms(1) have nr: "resolved (delays ps) (delay_id d) = None"
    and pr: "pr = DelayP (length (method_calls (delays ps)))"
    and d': "delays ps' = snd (fetcher_read ensureDelay_hash \<lparr>delay_id = delay_id d, delay_ms = delay_ms d\<rparr> (delays ps))"
    by (auto simp: delay_render_def fetcher_read_def ensureDelay_hash_def Let_def
        split: prod.splits read_result.splits option.splits)
  with PDelay show ?thesis
    by (simp add: delay_resolve_def fetcher_settle_def fetcher_read_def ensureDelay_hash_def Let_def)
qed

lemma page_settle_ready:
  "item_ready ps j \<Longrightarrow> item_ready (page_settle qenv pr ps) j"
  by (cases pr; cases j)
    (auto simp: resource_settle_def delay_resolve_def fetcher_settle_def split: option.split)

lemma page_settle_ok: "page_ok ps \<Longrightarrow> page_ok (page_settle qenv pr ps)"
  by (cases pr) (simp_all add: page_ok_def resource_settle_live)

lemma item_shown_caches:
  "cache (quotes ps') = cache (quotes ps) \<Longrightarrow> item_shown ps i out \<Longrightarrow> item_shown ps' i out"
  by (cases "(ps, i, out)" rule: item_shown.cases) auto

lemma item_ready_caches:
  "cache (quotes ps') = cache (quotes ps) \<Longrightarrow> resolved (delays ps') = resolved (delays ps) \<Longrightarrow>
   item_ready ps' i = item_ready ps i"
  by (cases i) simp_all

lemma page_render_facts:
  "page_render items ps = (r, ps') \<Longrightarrow> page_ok ps \<Longrightarrow>
   page_ok ps' \<and> cache (quotes ps') = cache (quotes ps) \<and> resolved (delays ps') = resolved (delays ps) \<and>
   (\<forall>os. r = Ready os \<longrightarrow> list_all2 (item_shown ps') items os) \<and>
   (\<forall>pr. r = Suspend pr \<longrightarrow>
      (\<exists>i \<in> set items. \<not> item_ready ps i \<and> item_ready (page_settle qenv pr ps') i))"
proof (induction items arbitrary: ps r ps')
  case Nil
  then show ?case by auto
next
  case (Cons i rest)
  obtain r1 ps1 where ir: "item_render i ps = (r1, ps1)" by fastforce
  note c1 = item_render_caches [OF ir Cons.prems(2)]
  show ?case
  proof (cases r1)
    case (Suspend pr)
    then have eq: "r = Suspend pr" "ps' = ps1" using Cons.prems(1) ir by simp_all
    have "\<not> item_ready ps i \<and> item_ready (page_settle qenv pr ps1) i"
      using item_render_suspend [of i ps pr ps1 qenv] ir Suspend Cons.prems(2) by simp
    then have "\<exists>j \<in> set (i # rest). \<not> item_ready ps j \<and> item_ready (page_settle qenv pr ps1) j"
      by (intro bexI [of _ i]) simp_all
    then show ?thesis using eq c1 by simp
  next
    case (Ready o1)
    obtain r2 ps2 where rr: "page_render rest ps1 = (r2, ps2)" by fastforce
    note IH = Cons.IH [OF rr conjunct2 [OF conjunct2 [OF c1]]]
    have sh: "item_shown ps2 i o1"
      using item_shown_caches [of ps2 ps i o1] item_render_ready [of i ps o1 ps1] ir Ready c1 IH by simp
    have rdy: "item_ready ps1 j = item_ready ps j" for j
      by (rule item_ready_caches) (simp_all add: c1)
    show ?thesis
    proof (cases r2)
      case (Ready os2)
      then have eq: "r = Ready (o1 # os2)" "ps' = ps2" using Cons.prems(1) ir rr \<open>r1 = Ready o1\<close> by simp_all
      have "list_all2 (item_shown ps2) rest os2" using IH Ready by blast
      with eq sh IH c1 show ?thesis by simp
    next
      case (Suspend pr)
      then have eq: "r = Suspend pr" "ps' = ps2" using Cons.prems(1) ir rr \<open>r1 = Ready o1\<close> by simp_all
      obtain j where "j \<in> set rest" "\<not> item_ready ps1 j" "item_ready (page_settle qenv pr ps2) j"
        using IH Suspend by blast
      with eq IH c1 rdy show ?thesis by auto
    qed
  qed
qed

lemma page_missing_strict:
  assumes "\<And>j. item_ready ps j \<Longrightarrow> item_ready ps' j"
    and "i \<in> set items" "\<not> item_ready ps i" "item_ready ps' i"
  shows "page_missing items ps' < page_missing items ps"
  unfolding page_missing_def
  by (rule length_filter_not_strict [where P = "item_ready ps" and Q = "item_ready ps'", OF assms])

lemma page_host_progress:
  "page_ok ps \<Longrightarrow> page_missing items ps < fuel \<Longrightarrow>
   \<exists>os ps' t'. page_host fuel qenv qlat items ps t = Some (os, ps', t') \<and> list_all2 (item_shown ps') items os"
proof (induction fuel arbitrary: ps t)
  case 0
  then show ?case by simp
next
  case (Suc n)
  obtain r ps1 where rr: "page_render items ps = (r, ps1)" by fastforce
  note f = page_render_facts [OF rr Suc.prems(1), of qenv]
  show ?case
  proof (cases r)
    case (Ready os)
    with rr f show ?thesis by simp
  next
    case (Suspend pr)
    let ?ps2 = "page_settle qenv pr ps1"
    from f Suspend obtain i where i: "i \<in> set items" "\<not> item_ready ps i" "item_ready ?ps2 i"
      by blast
    have "page_missing items ?ps2 < page_missing items ps"
    proof (rule page_missing_strict [OF _ i])
      fix j assume "item_ready ps j"
      then have "item_ready ps1 j" using item_ready_caches [of ps1 ps j] f by simp
      then show "item_ready ?ps2 j" by (rule page_settle_ready)
    qed
    moreover have "page_ok ?ps2" using f by (simp add: page_settle_ok)
    ultimately show ?thesis using Suc.IH [of ?ps2] Suc.prems(2) rr Suspend by simp
  qed
qed

lemma delay_render_ready: "resolved s (delay_id d) \<noteq> None \<Longrightarrow> delay_render d s = (Ready (delay_id d), s)"
  by (auto simp: delay_render_def fetcher_read_def ensureDelay_hash_def)

lemma delay_render_fetch:
  "resolved s (delay_id d) = None \<Longrightarrow>
   delay_render d s = (Suspend (length (method_calls s)),
     s\<lparr>method_calls := method_calls s @ [d],
       fetcher_inflight := (fetcher_inflight s)(length (method_calls s) \<mapsto> delay_id d)\<rparr>)"
  by (simp add: delay_render_def fetcher_read_def ensureDelay_hash_def Let_def)

text \<open>Leaves whose delay has resolved render without a fetch, in front of the rest.\<close>

lemma page_render_resolved_prefix:
  "\<forall>d \<in> set pre. resolved (delays ps) (delay_id d) \<noteq> None \<Longrightarrow>
   page_render (map PDelay pre @ xs) ps =
     (case page_render xs ps of
        (Ready os, ps') \<Rightarrow> (Ready (map (\<lambda>d. ODelay (delay_id d)) pre @ os), ps')
      | (Suspend p, ps') \<Rightarrow> (Suspend p, ps'))"
  by (induction pre) (auto simp: delay_render_ready split: prod.split read_result.split)

text \<open>
  The host over a page of delays whose first leaves have resolved and whose other
  leaves, with distinct ids, have not: one pass per unresolved leaf, each waiting that
  leaf's \<open>ms\<close>.
\<close>

lemma delay_page_host:
  assumes "\<forall>d \<in> set pre. resolved (delays ps) (delay_id d) \<noteq> None"
    and "\<forall>d \<in> set rest. resolved (delays ps) (delay_id d) = None" and "distinct (map delay_id rest)"
  shows "(page_host fuel qenv qlat (map PDelay (pre @ rest)) ps t = None \<longleftrightarrow> fuel \<le> length rest) \<and>
         (\<forall>os ps' t'. page_host fuel qenv qlat (map PDelay (pre @ rest)) ps t = Some (os, ps', t') \<longrightarrow>
            os = map (\<lambda>d. ODelay (delay_id d)) (pre @ rest) \<and> t' = t + sum_list (map delay_ms rest))"
  using assms
proof (induction rest arbitrary: pre ps t fuel)
  case Nil
  have r: "page_render (map PDelay pre) ps = (Ready (map (\<lambda>d. ODelay (delay_id d)) pre), ps)"
    using page_render_resolved_prefix [OF Nil.prems(1), of "[]"] by simp
  show ?case by (cases fuel) (simp_all add: r)
next
  case (Cons d rest)
  let ?n = "length (method_calls (delays ps))"
  let ?ps1 = "ps\<lparr>delays := (delays ps)\<lparr>method_calls := method_calls (delays ps) @ [d],
                  fetcher_inflight := (fetcher_inflight (delays ps))(?n \<mapsto> delay_id d)\<rparr>\<rparr>"
  have nr: "resolved (delays ps) (delay_id d) = None" using Cons.prems(2) by simp
  have r: "page_render (map PDelay (pre @ d # rest)) ps = (Suspend (DelayP ?n), ?ps1)"
    using page_render_resolved_prefix [OF Cons.prems(1), of "map PDelay (d # rest)"] nr
    by (simp add: delay_render_fetch)
  let ?ps2 = "page_settle qenv (DelayP ?n) ?ps1"
  have w: "promise_wait qlat (DelayP ?n) ?ps1 = delay_ms d" by simp
  have res2: "resolved (delays ?ps2) = (resolved (delays ps))(delay_id d \<mapsto> delay_id d)"
    by (simp add: delay_resolve_def fetcher_settle_def)
  have p1: "\<forall>x \<in> set (pre @ [d]). resolved (delays ?ps2) (delay_id x) \<noteq> None"
    using Cons.prems(1) res2 by auto
  have p2: "\<forall>x \<in> set rest. resolved (delays ?ps2) (delay_id x) = None"
  proof
    fix x assume x: "x \<in> set rest"
    have "delay_id d \<notin> delay_id ` set rest" using Cons.prems(3) by simp
    with x have "delay_id x \<noteq> delay_id d" by (metis image_eqI)
    then show "resolved (delays ?ps2) (delay_id x) = None" unfolding res2 using Cons.prems(2) x by simp
  qed
  have p3: "distinct (map delay_id rest)" using Cons.prems(3) by simp
  note IH = Cons.IH [OF p1 p2 p3]
  show ?case
  proof (cases fuel)
    case 0
    then show ?thesis by simp
  next
    case (Suc n)
    then show ?thesis using IH [of n "t + delay_ms d"] r w by (simp add: add.assoc)
  qed
qed

section \<open>Properties of the pages\<close>

text \<open>
  C30 (pages that read both caches complete). A page of \<open>Stock\<close> and \<open>Delay\<close> leaves,
  rendered from the initial caches by the host's retry loop, completes within one pass
  per leaf plus one, and each leaf shows its data: a \<open>Stock\<close> the quote cached for its
  ticker, a \<open>Delay\<close> its \<open>id\<close>. The two caches interact only through the host, which
  settles whichever kind of promise the pass threw.
\<close>

theorem page_host_completes:
  "\<exists>os ps' t'. page_host (Suc (length items)) qenv qlat items page_init 0 = Some (os, ps', t') \<and>
               list_all2 (item_shown ps') items os"
proof -
  have "page_missing items page_init < Suc (length items)"
    by (simp add: page_missing_def less_Suc_eq_le)
  then show ?thesis by (rule page_host_progress [OF page_ok_init])
qed

text \<open>
  C26 (sibling reads are serialised). A page of \<open>Delay\<close> leaves with distinct ids,
  rendered from the initial caches, needs one pass per leaf plus one and not fewer, and
  the host waits the sum of their \<open>ms\<close>, not the largest: each pass stops at the first
  unresolved \<open>Delay\<close>, so its timer starts only once the timers before it have fired.
  (\<open>/settings\<close>, with delays of 1000 and 2000 ms, waits 3000 ms.)
\<close>

theorem delay_page_waterfall:
  assumes "distinct (map delay_id ds)"
  shows "(page_host fuel qenv qlat (map PDelay ds) page_init t \<noteq> None \<longleftrightarrow> length ds < fuel) \<and>
         (\<forall>os ps t'. page_host fuel qenv qlat (map PDelay ds) page_init t = Some (os, ps, t') \<longrightarrow>
            os = map (\<lambda>d. ODelay (delay_id d)) ds \<and> t' = t + sum_list (map delay_ms ds))"
  using delay_page_host [of "[]" page_init ds fuel qenv qlat t] assms
  by (simp add: page_init_def fetcher_init_def not_le)

theorem delay_page_waterfall_witness:
  "distinct (map delay_id [\<lparr>delay_id = ''fizz'', delay_ms = 1000\<rparr>, \<lparr>delay_id = ''buzz'', delay_ms = 2000\<rparr>]) \<and>
   page_host 2 (\<lambda>p. \<lparr>companyName = ''Apple'', symbol = ''AAPL'', change = 1\<rparr>) (\<lambda>p. 0) settings_page page_init 0 = None \<and>
   (\<exists>ps. page_host 3 (\<lambda>p. \<lparr>companyName = ''Apple'', symbol = ''AAPL'', change = 1\<rparr>) (\<lambda>p. 0) settings_page page_init 0 =
          Some ([ODelay ''fizz'', ODelay ''buzz''], ps, 3000))"
proof -
  have d: "distinct (map delay_id [\<lparr>delay_id = ''fizz'', delay_ms = 1000\<rparr>, \<lparr>delay_id = ''buzz'', delay_ms = 2000\<rparr>])"
    by simp
  have e: "settings_page = map PDelay [\<lparr>delay_id = ''fizz'', delay_ms = 1000\<rparr>, \<lparr>delay_id = ''buzz'', delay_ms = 2000\<rparr>]"
    by (simp add: settings_page_def)
  note w2 = delay_page_waterfall [OF d, where fuel = 2 and qenv = "\<lambda>p. \<lparr>companyName = ''Apple'', symbol = ''AAPL'', change = 1\<rparr>"
      and qlat = "\<lambda>p. 0" and t = 0]
  note w3 = delay_page_waterfall [OF d, where fuel = 3 and qenv = "\<lambda>p. \<lparr>companyName = ''Apple'', symbol = ''AAPL'', change = 1\<rparr>"
      and qlat = "\<lambda>p. 0" and t = 0]
  obtain os ps t' where s: "page_host 3 (\<lambda>p. \<lparr>companyName = ''Apple'', symbol = ''AAPL'', change = 1\<rparr>) (\<lambda>p. 0)
      (map PDelay [\<lparr>delay_id = ''fizz'', delay_ms = 1000\<rparr>, \<lparr>delay_id = ''buzz'', delay_ms = 2000\<rparr>]) page_init 0 =
      Some (os, ps, t')"
    using w3 by fastforce
  with w3 have "os = [ODelay ''fizz'', ODelay ''buzz'']" and "t' = 3000" by auto
  moreover have "page_host 2 (\<lambda>p. \<lparr>companyName = ''Apple'', symbol = ''AAPL'', change = 1\<rparr>) (\<lambda>p. 0)
      (map PDelay [\<lparr>delay_id = ''fizz'', delay_ms = 1000\<rparr>, \<lparr>delay_id = ''buzz'', delay_ms = 2000\<rparr>]) page_init 0 = None"
    using conjunct1 [OF w2] by (cases "page_host 2 (\<lambda>p. \<lparr>companyName = ''Apple'', symbol = ''AAPL'', change = 1\<rparr>)
      (\<lambda>p. 0) (map PDelay [\<lparr>delay_id = ''fizz'', delay_ms = 1000\<rparr>, \<lparr>delay_id = ''buzz'', delay_ms = 2000\<rparr>])
      page_init 0") (simp_all, metis prod_cases3)
  ultimately show ?thesis using s d unfolding e by auto
qed

end
