(* ===== verification/App.thy ===== *)
theory App
  imports TimeoutGate AsyncRoute
begin

text \<open>
  The application of \<open>src/src/index.js\<close> (lines 205--268): a router, one
  \<open>AsyncRouteProvider\<close> (lines 122--135, \<open>ms = 5000\<close>, spinner fallback) and three
  exact \<open>AsyncRoute\<close>s (lines 137--150) for \<open>/\<close>, \<open>/about\<close> and \<open>/settings\<close>. The
  provider is a \<open>Timeout\<close> whose children publish its flag in a context; each
  \<open>AsyncRoute\<close> renders an \<open>AsyncRouteRenderer\<close> with the route's props, the
  router's match and the flag read from that context. \<open>MiniRouter\<close> is not in the
  repository: its match is modelled from spec section 6 as equality with the location
  for exact routes and prefix otherwise. The app's state is the location, the provider's
  gate and, per route instance, its last props and its state; an event is a navigation
  or elapsed time.
\<close>

record 'c route_cfg =
  cfg_path :: string
  cfg_exact :: bool
  cfg_ms :: "nat option"
  cfg_content :: 'c

definition route_matches :: "bool \<Rightarrow> string \<Rightarrow> string \<Rightarrow> bool" where
  "route_matches exact p loc = (if exact then loc = p else take (length p) loc = p)"

text \<open>The routes of lines 218--265, their render output named by the page.\<close>

definition app_routes :: "string route_cfg list" where
  "app_routes =
     [\<lparr>cfg_path = ''/'', cfg_exact = True, cfg_ms = None, cfg_content = ''Home''\<rparr>,
      \<lparr>cfg_path = ''/about'', cfg_exact = True, cfg_ms = Some 1000, cfg_content = ''About''\<rparr>,
      \<lparr>cfg_path = ''/settings'', cfg_exact = True, cfg_ms = Some 1000, cfg_content = ''Settings''\<rparr>]"

definition provider_ms :: nat where
  "provider_ms = 5000"

text \<open>
  \<open>AsyncRoute\<close>: the props its \<open>AsyncRouteRenderer\<close> receives. The flag is the
  context value; the route's own \<open>ms\<close> and \<open>fallback\<close> are spread into the props and
  never read.
\<close>

definition async_route_props :: "'c route_cfg \<Rightarrow> string \<Rightarrow> bool \<Rightarrow> rprops" where
  "async_route_props c loc d =
     \<lparr>path = cfg_path c, match = route_matches (cfg_exact c) (cfg_path c) loc, didExpire = d\<rparr>"

definition async_route_elem :: "'c route_cfg \<Rightarrow> 'c route_elem" where
  "async_route_elem c = \<lparr>children = NoChildren, render = Some (\<lambda>p. cfg_content c)\<rparr>"

record 'c app_state =
  location :: string
  app_gate :: gate
  instances :: "(rprops \<times> rstate) list"

definition app_init :: "'c route_cfg list \<Rightarrow> string \<Rightarrow> 'c app_state" where
  "app_init rs loc =
     \<lparr>location = loc, app_gate = gate_mount provider_ms,
      instances = map (\<lambda>c. (async_route_props c loc False, rstate_init)) rs\<rparr>"

text \<open>
  The updates the application commits: a navigation alone, time passing alone, or a
  navigation committed together with the tick of the gate's clock (React batches the
  router's and the gate's state updates into one commit; spec scenario C is such an
  update).
\<close>

datatype app_event = Navigate string | Elapse nat | NavigateElapse string nat

text \<open>
  One committed update: the router's location and the gate change, every route instance
  is rendered with its new props and runs \<open>componentDidUpdate\<close> against its last ones.
\<close>

definition update_instances ::
  "'c route_cfg list \<Rightarrow> string \<Rightarrow> bool \<Rightarrow> (rprops \<times> rstate) list \<Rightarrow> (rprops \<times> rstate) list" where
  "update_instances rs loc d ins =
     map2 (\<lambda>c (p, st). (async_route_props c loc d, did_update p (async_route_props c loc d) st)) rs ins"

fun app_step :: "'c route_cfg list \<Rightarrow> 'c app_state \<Rightarrow> app_event \<Rightarrow> 'c app_state" where
  "app_step rs a (Navigate loc) =
     a\<lparr>location := loc, instances := update_instances rs loc (expired (app_gate a)) (instances a)\<rparr>"
| "app_step rs a (Elapse dt) =
     (let g = gate_tick dt (app_gate a) in
      a\<lparr>app_gate := g, instances := update_instances rs (location a) (expired g) (instances a)\<rparr>)"
| "app_step rs a (NavigateElapse loc dt) =
     (let g = gate_tick dt (app_gate a) in
      a\<lparr>location := loc, app_gate := g, instances := update_instances rs loc (expired g) (instances a)\<rparr>)"

fun app_run :: "'c route_cfg list \<Rightarrow> 'c app_state \<Rightarrow> app_event list \<Rightarrow> 'c app_state" where
  "app_run rs a [] = a"
| "app_run rs a (e # es) = app_run rs (app_step rs a e) es"

text \<open>\<open>AsyncRouteProvider\<close>'s view: the timeout wrapper over the rendered routes.\<close>

definition route_view :: "'c route_cfg \<Rightarrow> rprops \<times> rstate \<Rightarrow> 'c view" where
  "route_view c i =
     (case renderer_render (async_route_elem c) (fst i) (snd i) of Some x \<Rightarrow> VLeaf x | None \<Rightarrow> VNull)"

definition app_view :: "'c view \<Rightarrow> 'c route_cfg list \<Rightarrow> 'c app_state \<Rightarrow> 'c view" where
  "app_view spinner rs a =
     timeout_view spinner (\<lambda>d. VFragment [VFragment (map2 route_view rs (instances a))])
       (expired (app_gate a))"

subsection \<open>Invariant of the composed system\<close>

text \<open>
  Every instance's last props carry the gate's flag; while the flag is down no instance
  has left the initial phase; no instance has both flags set.
\<close>

definition inst_ok :: "bool \<Rightarrow> rprops \<times> rstate \<Rightarrow> bool" where
  "inst_ok e i \<longleftrightarrow>
     didExpire (fst i) = e \<and> (\<not> e \<longrightarrow> \<not> incoming (snd i) \<and> \<not> outgoing (snd i)) \<and>
     \<not> (incoming (snd i) \<and> outgoing (snd i))"

definition app_ok :: "'c route_cfg list \<Rightarrow> 'c app_state \<Rightarrow> bool" where
  "app_ok rs a \<longleftrightarrow>
     map fst (instances a) = map (\<lambda>c. async_route_props c (location a) (expired (app_gate a))) rs \<and>
     gate_mounted (app_gate a) \<and> list_all (inst_ok (expired (app_gate a))) (instances a)"

lemma did_update_inst_ok:
  "inst_ok e (p, st) \<Longrightarrow> e \<le> e' \<Longrightarrow> didExpire p' = e' \<Longrightarrow> inst_ok e' (p', did_update p p' st)"
  by (cases e; cases e') (auto simp: inst_ok_def did_update_def)

lemma update_instances_ok:
  "list_all (inst_ok e) ins \<Longrightarrow> e \<le> e' \<Longrightarrow> length ins = length rs \<Longrightarrow>
   list_all (inst_ok e') (update_instances rs loc e' ins) \<and>
   map fst (update_instances rs loc e' ins) = map (\<lambda>c. async_route_props c loc e') rs"
proof (induction rs arbitrary: ins)
  case Nil
  then show ?case by (simp add: update_instances_def)
next
  case (Cons c rs)
  then obtain i ins' where ins: "ins = i # ins'" by (cases ins) auto
  obtain p st where i: "i = (p, st)" by fastforce
  have "inst_ok e' (async_route_props c loc e', did_update p (async_route_props c loc e') st)"
    using Cons.prems ins i by (intro did_update_inst_ok) (auto simp: async_route_props_def)
  with Cons.IH [of ins'] Cons.prems ins i show ?case by (simp add: update_instances_def)
qed

lemma app_init_ok: "app_ok rs (app_init rs loc)"
  by (simp add: app_ok_def app_init_def gate_mount_def list_all_iff inst_ok_def
      async_route_props_def rstate_init_def comp_def)

lemma gate_tick_expired_mono: "expired g \<le> expired (gate_tick dt g)"
  by (simp add: gate_tick_def Let_def)

lemma app_step_tick_ok: "app_ok rs a \<Longrightarrow> app_ok rs (app_step rs a (NavigateElapse loc dt))"
proof -
  assume ok: "app_ok rs a"
  have m: "gate_mounted (gate_tick dt (app_gate a))"
    using ok by (simp add: app_ok_def gate_tick_def Let_def)
  from ok m show ?thesis
    using update_instances_ok [of "expired (app_gate a)" "instances a" "expired (gate_tick dt (app_gate a))"
        rs loc] gate_tick_expired_mono [of "app_gate a" dt]
    by (simp add: app_ok_def Let_def map_eq_imp_length_eq [of fst])
qed

text \<open>Time passing alone is a tick committed without moving the location.\<close>

lemma app_step_elapse: "app_step rs a (Elapse dt) = app_step rs a (NavigateElapse (location a) dt)"
  by (simp add: Let_def)

lemma app_step_ok: "app_ok rs a \<Longrightarrow> app_ok rs (app_step rs a e)"
proof (cases e)
  case (Navigate loc)
  assume "app_ok rs a"
  with Navigate show ?thesis
    using update_instances_ok [of "expired (app_gate a)" "instances a" "expired (app_gate a)" rs loc]
    by (simp add: app_ok_def map_eq_imp_length_eq [of fst])
qed (simp_all only: app_step_elapse app_step_tick_ok)

lemma app_run_ok: "app_ok rs a \<Longrightarrow> app_ok rs (app_run rs a es)"
  by (induction es arbitrary: a) (simp_all add: app_step_ok)

lemma app_run_elapse_gate:
  "app_gate (app_run rs a (map Elapse ds)) = gate_run (app_gate a) (map Tick ds)"
  by (induction ds arbitrary: a) (simp_all add: Let_def)

lemma app_run_expired_mono:
  "expired (app_gate a) \<Longrightarrow> expired (app_gate (app_run rs a es))"
proof (induction es arbitrary: a)
  case (Cons e es)
  have "expired (app_gate (app_step rs a e))"
    using Cons.prems gate_tick_expired_mono [of "app_gate a"] by (cases e) (auto simp: Let_def)
  then show ?case by (simp add: Cons.IH)
qed simp

lemma app_run_append: "app_run rs a (xs @ ys) = app_run rs (app_run rs a xs) ys"
  by (induction xs arbitrary: a) simp_all

end
