(* ===== verification/Spec2Isabelle.thy ===== *)
theory Spec2Isabelle
  imports Resource CacheContext Fetcher TimeoutGate AsyncRoute RenderPass Pages App
begin

text \<open>
  \<^bold>\<open>Verification of react-router-suspense-demo.\<close>
  The program is one module, \<open>src/src/index.js\<close> (\<open>src/src/Spinner.js\<close> is styling
  only). Its parts, and where each is modelled:

  \<^item> \<^bold>\<open>Resource cache\<close> (theory \<open>Resource\<close>): the module variables \<open>cache\<close> and
    \<open>pending\<close> and \<open>createResource\<close>'s \<open>read\<close>, \<open>flush\<close>, \<open>refetch\<close> and the
    \<open>then\<close> callback of a fetch (lines 9--58). State \<open>res_state\<close>: the two maps, plus
    the host's promises whose callback has not run (\<open>inflight\<close>) and the log of calls
    of the fetch function (\<open>calls\<close>; promise \<open>i\<close> is the \<open>i\<close>-th call). A thrown
    promise is \<open>Suspend p\<close>. Events (\<open>res_event\<close>, \<open>res_step\<close>, \<open>res_run\<close>) are
    reads, settlements, rejections, flushes and refetches. Lemmas: the invariants
    (no key both cached and pending; each in-flight promise is the pending entry of its
    key; fresh promise names; every promise names a call made for its key) and their
    preservation; claims C1--C8 (coalescing, cache hits, flush, the stale write of a
    pre-flush fetch, refetch, the stuck rejected key, consistency) and C28.
  \<^item> \<^bold>\<open>Cache context\<close> (theory \<open>CacheContext\<close>): the two module variables
    as references into a store of \<open>Map\<close> objects with an allocation limit
    (\<open>js_heap\<close>), \<open>createResource\<close>'s operations over that store (\<open>heap_read\<close>,
    \<open>heap_settle\<close>, \<open>heap_flush\<close>, ...; \<open>new Map()\<close> allocates), and
    \<open>CacheProvider\<close> / \<open>withCache\<close> (lines 85--99), which pass the object \<open>cache\<close>
    refers to at the provider's render. \<open>heap_abs\<close> reads the referenced objects and
    \<open>heap_run_abs\<close> shows the store model agrees with theory \<open>Resource\<close>, so the
    resource lemmas carry over. C24 and C25: a consumer sees the live cache until a
    flush and the pre-flush map for ever after it (\<open>with_cache_stale_scenario\<close> is an
    instance).
  \<^item> \<^bold>\<open>Simple fetcher\<close> (theory \<open>Fetcher\<close>): \<open>createFetcher\<close> (lines 14--26) and
    its instance \<open>ensureDelay\<close> (lines 81--84), used by \<open>Delay\<close>; claims C9--C11.
  \<^item> \<^bold>\<open>Timeout wrapper\<close> (theory \<open>TimeoutGate\<close>): \<open>Timeout\<close> (lines 61--72) as
    a view tree with the \<open>hidden\<close> attribute, over the host gate \<open>React.Timeout\<close>,
    which is not in the repository and is modelled from spec section 4.2: a one-shot
    timer armed at mount, a flag raised at the first clock tick reaching \<open>ms\<close>, a
    teardown that cancels the timer; claims C12--C14.
  \<^item> \<^bold>\<open>Route transition machine\<close> (theory \<open>AsyncRoute\<close>): \<open>AsyncRouteRenderer\<close>
    (lines 152--200): state \<open>rstate\<close> with \<open>setState\<close>'s merge (including the key
    \<open>incomfing\<close> that line 168 writes), \<open>componentDidUpdate\<close> as \<open>did_update\<close>,
    \<open>render\<close> as \<open>renderer_render\<close>, one instance's life as \<open>renderer_trace\<close>. The
    spec's abstract machine (section 4.3) is \<open>spec_next\<close>, \<open>spec_shows\<close>,
    \<open>spec_trace\<close>, related by \<open>abs_phase\<close>; claims C15--C17 (P6 and the refinement
    under a monotone flag, and the one step where the typo breaks P6).
  \<^item> \<^bold>\<open>Render passes and the host's retry loop\<close> (theory \<open>RenderPass\<close>): a pass
    reads requests in order and stops at the first thrown promise (\<open>render_reads\<close>);
    the host waits for the promise, runs its callback and renders again
    (\<open>host_render\<close>, spec section 5, modelled from the spec). Fuel: one unit per
    pass. The bound \<open>length xs + 1\<close> suffices when no fetch was rejected (C18; the
    measure is the number of the pass's keys not cached, which each retry lowers); after
    a rejection no fuel suffices (C19); for distinct keys the bound is exact (C27: a pass
    completes within \<open>fuel\<close> passes iff fewer than \<open>fuel\<close> keys are uncached). C29:
    the promise a read throws is the one whose settlement makes it return. \<open>Stock\<close>
    (lines 102--112) is \<open>stock_render\<close>.
  \<^item> \<^bold>\<open>Pages\<close> (theory \<open>Pages\<close>): \<open>Delay\<close> (lines 115--118), the leaves of the
    \<open>/settings\<close> page (lines 256--264), and a host loop over a state holding both
    caches, which settles a quote or a delay promise as the pass threw it and adds up the
    time it waited (\<open>page_host\<close>). C30: every page of \<open>Stock\<close> and \<open>Delay\<close> leaves
    completes within one pass per leaf plus one; C26: a page of distinct delays needs
    exactly that many passes and waits the sum of its delays.
  \<^item> \<^bold>\<open>Application\<close> (theory \<open>App\<close>): \<open>AsyncRouteProvider\<close> (lines 122--135),
    \<open>AsyncRoute\<close> (lines 137--150) and the route table of \<open>root.render\<close> (lines
    205--268), composed over the gate and one renderer per route. Its updates are a
    navigation, time passing, or a navigation committed with a clock tick (spec scenario
    C). \<open>MiniRouter\<close> is not in the repository; its match is modelled from spec
    section 6.

  The properties that span components are in this theory (C20--C23): the spec's P6 for
  every route instance of the running application (instances do enter Incoming and
  Outgoing, \<open>app_route_enters_incoming\<close>), exclusivity of the three routes, what the
  application shows before the timeout, and the consequence of the spec's terminal gate.

  Not modelled: the HTTP call of \<open>ensureQuote\<close> and the mock timers (the resolved
  values and latencies are inputs of the settlement events), the JSX markup of
  \<open>Stock\<close>, \<open>Delay\<close> and the pages beyond their leaves, the DOM bootstrap,
  \<open>console.log\<close>, the routes' \<open>ms\<close> and \<open>fallback\<close> props (spread into the props of
  \<open>AsyncRouteRenderer\<close>, which never reads them), and \<open>Spinner\<close>
  (\<open>src/src/Spinner.js\<close>: a styled element with no state and no logic). The application
  model does not suspend route content; suspension is modelled per render pass in
  \<open>RenderPass\<close> and \<open>Pages\<close>.

  Plan for the remaining work: route content that suspends inside the application
  model (the pages of \<open>Pages\<close> as the content of the routes of \<open>App\<close>, racing the
  gate); the two frames React commits per update (render with the old state, then with
  the state \<open>componentDidUpdate\<close> sets).
\<close>

subsection \<open>Helpers\<close>

lemma visible_routes_unexpired:
  "list_all (inst_ok False) ins \<Longrightarrow> map fst ins = map (\<lambda>c. async_route_props c loc False) rs \<Longrightarrow>
   concat (map visible (map2 route_view rs ins)) =
     map cfg_content (filter (\<lambda>c. route_matches (cfg_exact c) (cfg_path c) loc) rs)"
proof (induction rs arbitrary: ins)
  case Nil
  then show ?case by simp
next
  case (Cons c rs)
  then obtain p st ins' where ins: "ins = (p, st) # ins'" by (cases ins) auto
  with Cons.prems have p: "p = async_route_props c loc False"
    and st: "\<not> incoming st \<and> \<not> outgoing st" by (auto simp: inst_ok_def)
  have "visible (route_view c (p, st)) =
        (if route_matches (cfg_exact c) (cfg_path c) loc then [cfg_content c] else [])"
    using p st by (simp add: route_view_def renderer_render_def route_content_def
        async_route_elem_def async_route_props_def)
  with Cons.IH [of ins'] Cons.prems ins show ?case by simp
qed

section \<open>Properties of the whole application\<close>

text \<open>
  C20 (spec P6 for the running application). Whatever the navigations, the elapsed time
  and the navigations committed together with a clock tick, no route instance of the
  application is ever both incoming and outgoing: the provider's gate only raises its
  flag, so each instance changes phase at most once, and the first change writes one
  flag only. Instances do change phase (\<open>app_route_enters_incoming\<close> below).
\<close>

theorem app_never_both:
  "list_all (\<lambda>i. \<not> (incoming (snd i) \<and> outgoing (snd i)))
     (instances (app_run app_routes (app_init app_routes loc) es))"
proof -
  have "app_ok app_routes (app_run app_routes (app_init app_routes loc) es)"
    by (rule app_run_ok [OF app_init_ok])
  then show ?thesis by (auto simp: app_ok_def list_all_iff inst_ok_def)
qed

text \<open>
  Spec scenario C in the running application: navigating from \<open>/\<close> to \<open>/about\<close> in the
  update where the provider's 5000 ms elapse puts the \<open>/about\<close> instance into Incoming,
  and \<open>/\<close> into Outgoing.
\<close>

theorem app_route_enters_incoming:
  "incoming (snd (instances (app_run app_routes (app_init app_routes ''/'') [NavigateElapse ''/about'' 5000]) ! 1)) \<and>
   outgoing (snd (instances (app_run app_routes (app_init app_routes ''/'') [NavigateElapse ''/about'' 5000]) ! 0))"
  by (simp add: app_routes_def app_init_def update_instances_def async_route_props_def route_matches_def
      did_update_def rstate_init_def gate_mount_def gate_tick_def provider_ms_def)

text \<open>C21. The three exact routes are exclusive: at most one matches any location.\<close>

theorem app_routes_exclusive:
  "length (filter (\<lambda>c. route_matches (cfg_exact c) (cfg_path c) loc) app_routes) \<le> 1"
  by (simp add: app_routes_def route_matches_def)

text \<open>
  C22 (what the application shows before the timeout). As long as the provider's gate
  has not expired, the application shows exactly the content of the routes that match
  the current location, and no spinner.
\<close>

theorem app_view_before_timeout:
  assumes "\<not> expired (app_gate (app_run app_routes (app_init app_routes loc) es))"
  shows "visible (app_view spinner app_routes (app_run app_routes (app_init app_routes loc) es)) =
         map cfg_content (filter (\<lambda>c. route_matches (cfg_exact c) (cfg_path c)
            (location (app_run app_routes (app_init app_routes loc) es))) app_routes)"
proof -
  let ?a = "app_run app_routes (app_init app_routes loc) es"
  have ok: "app_ok app_routes ?a" by (rule app_run_ok [OF app_init_ok])
  with assms have "list_all (inst_ok False) (instances ?a)"
    and "map fst (instances ?a) = map (\<lambda>c. async_route_props c (location ?a) False) app_routes"
    by (simp_all add: app_ok_def)
  then have "concat (map visible (map2 route_view app_routes (instances ?a))) =
      map cfg_content (filter (\<lambda>c. route_matches (cfg_exact c) (cfg_path c) (location ?a)) app_routes)"
    by (rule visible_routes_unexpired)
  with assms show ?thesis by (simp add: app_view_def timeout_view_def)
qed

theorem app_view_before_timeout_witness:
  "\<not> expired (app_gate (app_run app_routes (app_init app_routes ''/'') [Navigate ''/about'', Elapse 1000])) \<and>
   visible (app_view (VLeaf ''spinner'') app_routes
     (app_run app_routes (app_init app_routes ''/'') [Navigate ''/about'', Elapse 1000])) = [''About'']"
proof -
  have h: "\<not> expired (app_gate (app_run app_routes (app_init app_routes ''/'') [Navigate ''/about'', Elapse 1000]))"
    by (simp add: app_init_def gate_mount_def gate_tick_def provider_ms_def Let_def)
  have l: "location (app_run app_routes (app_init app_routes ''/'') [Navigate ''/about'', Elapse 1000]) = ''/about''"
    by (simp add: Let_def)
  show ?thesis
    using app_view_before_timeout [OF h, of "VLeaf ''spinner''"] h l
    by (simp add: app_routes_def route_matches_def)
qed

text \<open>
  C23 (consequence of the spec's terminal gate, spec 4.2). The provider's gate is mounted
  once with the application; with a flag that never goes down, from the moment 5000 ms
  have elapsed the application shows only the spinner, whatever navigation follows.
\<close>

theorem app_spinner_forever:
  assumes "provider_ms \<le> sum_list ds" and "ds \<noteq> []"
  shows "visible (app_view spinner app_routes
           (app_run app_routes (app_init app_routes loc) (map Elapse ds @ es))) = visible spinner"
proof -
  let ?a = "app_run app_routes (app_init app_routes loc) (map Elapse ds)"
  have "expired (app_gate ?a)"
    using gate_run_ticks [of "gate_mount provider_ms" ds] assms
    by (simp add: app_run_elapse_gate app_init_def gate_mount_def)
  then have "expired (app_gate (app_run app_routes ?a es))" by (rule app_run_expired_mono)
  then show ?thesis by (simp add: app_run_append app_view_def timeout_view_def)
qed

theorem app_spinner_forever_witness:
  "provider_ms \<le> sum_list [5000] \<and> [5000::nat] \<noteq> [] \<and>
   visible (app_view (VLeaf ''spinner'') app_routes
     (app_run app_routes (app_init app_routes ''/'') (map Elapse [5000] @ [Navigate ''/settings'']))) =
   [''spinner'']"
proof -
  have h: "provider_ms \<le> sum_list [5000::nat]" by (simp add: provider_ms_def)
  have n: "[5000::nat] \<noteq> []" by simp
  show ?thesis
    using app_spinner_forever [OF h n, of "VLeaf ''spinner''" "''/''" "[Navigate ''/settings'']"] h n
    by simp
qed

end
